theory Spec2Isabelle
  imports Main "HOL-Library.Sublist"
begin

section \<open>Python strings\<close>

text \<open>
  A Python \<open>str\<close> is a sequence of Unicode code points; a code point is modelled as a
  natural number and a string as the list of its code points. \<open>py\<close> turns a literal of
  Basic Latin characters into such a list.
\<close>

type_synonym pystr = "nat list"

definition py :: "string \<Rightarrow> pystr" where
  "py s = map of_char s"

text \<open>
  \<open>str.lower()\<close> and \<open>str.upper()\<close> map every code point to the code points of its
  lower-case (upper-case) form. The two tables below are exact on Basic Latin
  (code points below 128) and on every other code point whose lower-case (upper-case)
  form contains a Basic Latin character: U+0130 and U+212A for \<open>lower\<close>; U+00DF, U+0131,
  U+0149, U+017F, U+01F0, U+1E96 to U+1E9A and U+FB00 to U+FB06 for \<open>upper\<close>. Every other code
  point is kept as it is: its image contains no Basic Latin character, and all extensions
  of the table \<open>FILE_TYPES\<close> are Basic Latin, so the image never takes part in a match.
\<close>

definition lower_cp :: "nat \<Rightarrow> pystr" where
  "lower_cp c =
     (if 65 \<le> c \<and> c \<le> 90 then [c + 32]
      else if c = 304 then [105, 775]
      else if c = 8490 then [107]
      else [c])"

definition upper_cp :: "nat \<Rightarrow> pystr" where
  "upper_cp c =
     (if 97 \<le> c \<and> c \<le> 122 then [c - 32]
      else if c = 223 then [83, 83]
      else if c = 305 then [73]
      else if c = 329 then [700, 78]
      else if c = 383 then [83]
      else if c = 496 then [74, 780]
      else if c = 7830 then [72, 817]
      else if c = 7831 then [84, 776]
      else if c = 7832 then [87, 778]
      else if c = 7833 then [89, 778]
      else if c = 7834 then [65, 702]
      else if c = 64256 then [70, 70]
      else if c = 64257 then [70, 73]
      else if c = 64258 then [70, 76]
      else if c = 64259 then [70, 70, 73]
      else if c = 64260 then [70, 70, 76]
      else if c = 64261 then [83, 84]
      else if c = 64262 then [83, 84]
      else [c])"

definition str_lower :: "pystr \<Rightarrow> pystr" where
  "str_lower s = concat (map lower_cp s)"

definition str_upper :: "pystr \<Rightarrow> pystr" where
  "str_upper s = concat (map upper_cp s)"

text \<open>\<open>s.endswith(suffix)\<close>, and \<open>s.endswith(tuple)\<close>: true when one of the tuple's
  strings is a suffix.\<close>

definition endswith :: "pystr \<Rightarrow> pystr \<Rightarrow> bool" where
  "endswith s suf \<longleftrightarrow> length suf \<le> length s \<and> drop (length s - length suf) s = suf"

definition endswith_tuple :: "pystr \<Rightarrow> pystr list \<Rightarrow> bool" where
  "endswith_tuple s sufs = list_ex (endswith s) sufs"

text \<open>\<open>str(n)\<close> for an integer \<open>n \<ge> 0\<close>: its decimal digits, 48 being the digit zero.\<close>

function str_nat :: "nat \<Rightarrow> pystr" where
  "str_nat n = (if n < 10 then [48 + n] else str_nat (n div 10) @ [48 + n mod 10])"
  by pat_completeness auto
termination
  by (relation "measure id") auto

declare str_nat.simps [simp del]

text \<open>\<open>p.rfind(c)\<close> for a single character: the highest index of \<open>c\<close>, or \<open>-1\<close>.\<close>

definition rfind :: "pystr \<Rightarrow> nat \<Rightarrow> int" where
  "rfind p c =
     (case filter (\<lambda>i. p ! i = c) (rev [0..<length p]) of
        [] \<Rightarrow> - 1
      | i # _ \<Rightarrow> int i)"

section \<open>Paths\<close>

text \<open>
  \<open>os.path.join(a, b)\<close> and \<open>os.path.splitext(p)\<close> as \<open>posixpath\<close> defines them (the
  separator is 47, the extension separator 46). \<open>splitext\<close> looks for the last dot after
  the last separator and then skips leading dots: the loop \<open>splitext_scan\<close> returns the
  split at the first character before that dot that is not a dot, and the whole name with
  an empty extension when there is none.
\<close>

definition path_join :: "pystr \<Rightarrow> pystr \<Rightarrow> pystr" where
  "path_join a b =
     (if take 1 b = [47] then b
      else if a = [] \<or> endswith a [47] then a @ b
      else a @ [47] @ b)"

function splitext_scan :: "pystr \<Rightarrow> nat \<Rightarrow> nat \<Rightarrow> pystr \<times> pystr" where
  "splitext_scan p filenameIndex dotIndex =
     (if filenameIndex < dotIndex
      then (if take 1 (drop filenameIndex p) \<noteq> [46]
            then (take dotIndex p, drop dotIndex p)
            else splitext_scan p (filenameIndex + 1) dotIndex)
      else (p, []))"
  by pat_completeness auto
termination
  by (relation "measure (\<lambda>(p, filenameIndex, dotIndex). dotIndex - filenameIndex)") auto

declare splitext_scan.simps [simp del]

definition splitext :: "pystr \<Rightarrow> pystr \<times> pystr" where
  "splitext p =
     (let sepIndex = rfind p 47;
          dotIndex = rfind p 46
      in if dotIndex > sepIndex
         then splitext_scan p (nat (sepIndex + 1)) (nat dotIndex)
         else (p, []))"

section \<open>Configuration\<close>

text \<open>The dictionary \<open>FILE_TYPES\<close> in its declared order (a Python dictionary iterates
  in insertion order), and the name of the folder for everything else.\<close>

definition FILE_TYPES :: "(pystr \<times> pystr list) list" where
  "FILE_TYPES =
     [(py ''Images'', map py [''.jpg'', ''.jpeg'', ''.png'', ''.gif'', ''.bmp'', ''.svg'', ''.webp'']),
      (py ''Documents'', map py [''.pdf'', ''.docx'', ''.doc'', ''.txt'', ''.pptx'', ''.ppt'',
                                  ''.xlsx'', ''.xls'', ''.odt'', ''.rtf'']),
      (py ''Videos'', map py [''.mp4'', ''.mov'', ''.avi'', ''.mkv'', ''.wmv'']),
      (py ''Music'', map py [''.mp3'', ''.wav'', ''.aac'', ''.flac'', ''.ogg'']),
      (py ''Archives'', map py [''.zip'', ''.rar'', ''.7z'', ''.tar'', ''.gz''])]"

definition OTHER_FOLDER_NAME :: pystr where
  "OTHER_FOLDER_NAME = py ''Others''"

section \<open>Utilities\<close>

text \<open>
  \<open>get_unique_name(dest_dir, filename)\<close>. The parameter \<open>path_exists\<close> is
  \<open>os.path.exists\<close> on the file system at the time of the call. The \<open>while\<close> loop may
  run forever (when every candidate exists), so it is a partial function: \<open>None\<close> is the
  call that does not return.
\<close>

definition numbered_name :: "pystr \<Rightarrow> pystr \<Rightarrow> nat \<Rightarrow> pystr" where
  \<comment> \<open>the f-string \<open>f"{base} ({counter}){ext}"\<close>\<close>
  "numbered_name base ext counter = base @ py '' ('' @ str_nat counter @ py '')'' @ ext"

partial_function (option) unique_name_loop ::
  "(pystr \<Rightarrow> bool) \<Rightarrow> pystr \<Rightarrow> pystr \<Rightarrow> pystr \<Rightarrow> pystr \<Rightarrow> nat \<Rightarrow> pystr option" where
  "unique_name_loop path_exists dest_dir base ext candidate counter =
     (if path_exists (path_join dest_dir candidate)
      then unique_name_loop path_exists dest_dir base ext
             (numbered_name base ext counter) (counter + 1)
      else Some candidate)"

declare unique_name_loop.simps [code]

definition get_unique_name :: "(pystr \<Rightarrow> bool) \<Rightarrow> pystr \<Rightarrow> pystr \<Rightarrow> pystr option" where
  "get_unique_name path_exists dest_dir filename =
     (case splitext filename of
        (base, ext) \<Rightarrow> unique_name_loop path_exists dest_dir base ext filename 1)"

text \<open>\<open>categorize_file(filename)\<close>: the \<open>for\<close> loop over the items of the table, and
  the function itself, which runs it on \<open>FILE_TYPES\<close> with the lower-cased name.\<close>

fun categorize_loop :: "pystr \<Rightarrow> (pystr \<times> pystr list) list \<Rightarrow> pystr option" where
  "categorize_loop lower [] = None"
| "categorize_loop lower ((cat, exts) # items) =
     (if endswith_tuple lower exts then Some cat else categorize_loop lower items)"

definition categorize_file :: "pystr \<Rightarrow> pystr option" where
  "categorize_file filename = (let lower = str_lower filename in categorize_loop lower FILE_TYPES)"

text \<open>The expression \<open>categorize_file(filename) or OTHER_FOLDER_NAME\<close> of the worker: the
  fallback is taken when the result is \<open>None\<close> (or the empty string, which is false too).\<close>

definition category_or_other :: "pystr \<Rightarrow> pystr" where
  "category_or_other filename =
     (case categorize_file filename of
        None \<Rightarrow> OTHER_FOLDER_NAME
      | Some cat \<Rightarrow> if cat = [] then OTHER_FOLDER_NAME else cat)"

section \<open>The worker's environment\<close>

text \<open>
  The items the worker puts on its queue are the tuples \<open>("start", total)\<close>,
  \<open>("progress", idx)\<close>, \<open>("log", text)\<close>, \<open>("error", text)\<close> and
  \<open>("done", moved_count)\<close>. An exception is kept as the text \<open>str(e)\<close> that the
  worker formats into its messages.
\<close>

datatype event = Start nat | Progress nat | LogLine pystr | Error pystr | Done nat

datatype exn = Exception pystr

fun str_exn :: "exn \<Rightarrow> pystr" where
  "str_exn (Exception text) = text"

text \<open>
  The library calls of \<open>run\<close> are parameters, over a state \<open>'w\<close> of the world (the file
  system, the clock, the stop event). A call that only reads returns its result, or the
  exception it raises (\<open>Inl\<close>). \<open>os.makedirs(path, exist_ok=True)\<close> and
  \<open>shutil.move(src, dst)\<close> return the exception they raise, if any, and the world they
  leave, which may also hold what other actors did meanwhile (another thread setting the
  stop event, a file removed). The theorems hold for every such environment.
\<close>

record 'w platform =
  os_listdir :: "pystr \<Rightarrow> 'w \<Rightarrow> exn + pystr list"
  os_path_isfile :: "pystr \<Rightarrow> 'w \<Rightarrow> exn + bool"
  os_path_exists :: "pystr \<Rightarrow> 'w \<Rightarrow> bool"
  os_makedirs :: "pystr \<Rightarrow> 'w \<Rightarrow> exn option \<times> 'w"
  shutil_move :: "pystr \<Rightarrow> pystr \<Rightarrow> 'w \<Rightarrow> exn option \<times> 'w"
  time_strftime :: "'w \<Rightarrow> pystr"
  stop_event_is_set :: "'w \<Rightarrow> bool"

text \<open>
  What the worker has done so far is kept as a trace, oldest entry first: every item put
  on the queue, every reading of the stop event with its value, and every call of
  \<open>os.makedirs\<close> and \<open>shutil.move\<close> with the exception it raised, if any.
\<close>

datatype call =
    Put event
  | Stopped bool
  | Makedirs pystr "exn option"
  | Move pystr pystr "exn option"

record 'w wstate =
  world :: 'w
  trace :: "call list"
  moved_count :: nat

definition put :: "event \<Rightarrow> 'w wstate \<Rightarrow> 'w wstate" where
  "put e st = st\<lparr>trace := trace st @ [Put e]\<rparr>"

definition stopped :: "'w platform \<Rightarrow> 'w wstate \<Rightarrow> bool \<times> 'w wstate" where
  "stopped P st =
     (let b = stop_event_is_set P (world st)
      in (b, st\<lparr>trace := trace st @ [Stopped b]\<rparr>))"

definition makedirs :: "'w platform \<Rightarrow> pystr \<Rightarrow> 'w wstate \<Rightarrow> exn option \<times> 'w wstate" where
  "makedirs P path st =
     (case os_makedirs P path (world st) of
        (r, w) \<Rightarrow> (r, st\<lparr>world := w, trace := trace st @ [Makedirs path r]\<rparr>))"

definition move :: "'w platform \<Rightarrow> pystr \<Rightarrow> pystr \<Rightarrow> 'w wstate \<Rightarrow> exn option \<times> 'w wstate" where
  "move P src dst st =
     (case shutil_move P src dst (world st) of
        (r, w) \<Rightarrow> (r, st\<lparr>world := w, trace := trace st @ [Move src dst r]\<rparr>))"

text \<open>The events of a trace, in order, and the successful moves in it.\<close>

fun events :: "call list \<Rightarrow> event list" where
  "events [] = []"
| "events (Put e # cs) = e # events cs"
| "events (c # cs) = events cs"

fun progress_indices :: "event list \<Rightarrow> nat list" where
  "progress_indices [] = []"
| "progress_indices (Progress i # es) = i # progress_indices es"
| "progress_indices (e # es) = progress_indices es"

fun count_moved :: "call list \<Rightarrow> nat" where
  "count_moved [] = 0"
| "count_moved (Move src dst None # cs) = Suc (count_moved cs)"
| "count_moved (c # cs) = count_moved cs"

fun is_fs_call :: "call \<Rightarrow> bool" where
  "is_fs_call (Makedirs path r) = True"
| "is_fs_call (Move src dst r) = True"
| "is_fs_call c = False"

text \<open>A directory of a real file system holds finitely many names: in every world, and
  for every directory, the names that \<open>os.path.exists\<close> finds there are finitely many.\<close>

definition finite_directories :: "'w platform \<Rightarrow> bool" where
  "finite_directories P \<longleftrightarrow> (\<forall>w dir. finite {name. os_path_exists P (path_join dir name) w})"

section \<open>The worker\<close>

text \<open>The texts of the messages (8594 is the arrow of the \<open>Moved\<close> line).\<close>

definition listing_error_msg :: "exn \<Rightarrow> pystr" where
  "listing_error_msg e = py ''Failed to list source folder: '' @ str_exn e"

definition cancelled_msg :: pystr where
  "cancelled_msg = py ''[SYS] Operation cancelled by user.''"

definition skipping_msg :: "pystr \<Rightarrow> pystr" where
  "skipping_msg filename = py ''[SYS] Skipping (not a file): '' @ filename"

definition moved_msg :: "pystr \<Rightarrow> pystr \<Rightarrow> pystr \<Rightarrow> pystr \<Rightarrow> pystr" where
  "moved_msg timestamp filename category unique_name =
     py ''[SYS] ['' @ timestamp @ py ''] Moved: '' @ filename @ py '' '' @ [8594] @ py '' '' @
     category @ py ''/'' @ unique_name"

definition error_msg :: "pystr \<Rightarrow> exn \<Rightarrow> pystr" where
  "error_msg filename e = py ''[SYS] ERROR moving '' @ filename @ py '': '' @ str_exn e"

text \<open>
  The listing: \<open>[f for f in os.listdir(source) if os.path.isfile(os.path.join(source, f))]\<close>.
  An exception of either call leaves the comprehension.
\<close>

fun filter_isfile :: "'w platform \<Rightarrow> pystr \<Rightarrow> 'w \<Rightarrow> pystr list \<Rightarrow> exn + pystr list" where
  "filter_isfile P source w [] = Inr []"
| "filter_isfile P source w (f # fs) =
     (case os_path_isfile P (path_join source f) w of
        Inl e \<Rightarrow> Inl e
      | Inr b \<Rightarrow>
          (case filter_isfile P source w fs of
             Inl e \<Rightarrow> Inl e
           | Inr files \<Rightarrow> Inr (if b then f # files else files)))"

definition list_files :: "'w platform \<Rightarrow> pystr \<Rightarrow> 'w \<Rightarrow> exn + pystr list" where
  "list_files P source w =
     (case os_listdir P source w of
        Inl e \<Rightarrow> Inl e
      | Inr names \<Rightarrow> filter_isfile P source w names)"

text \<open>The loop \<open>for cat in FILE_TYPES.keys(): os.makedirs(...)\<close>; it stands outside every
  \<open>try\<close>, so an exception of \<open>os.makedirs\<close> leaves it.\<close>

fun make_category_dirs ::
  "'w platform \<Rightarrow> pystr \<Rightarrow> pystr list \<Rightarrow> 'w wstate \<Rightarrow> exn option \<times> 'w wstate" where
  "make_category_dirs P dest [] st = (None, st)"
| "make_category_dirs P dest (cat # cats) st =
     (case makedirs P (path_join dest cat) st of
        (Some e, st') \<Rightarrow> (Some e, st')
      | (None, st') \<Rightarrow> make_category_dirs P dest cats st')"

text \<open>
  The body of the \<open>try\<close> for one file. It ends with an exception (\<open>Inl\<close>), with
  \<open>continue\<close> (the skip, which has put its own \<open>progress\<close>) or by falling through to
  the \<open>progress\<close> after the \<open>try\<close>; \<open>None\<close> is the body that does not return, because
  \<open>get_unique_name\<close> does not.
\<close>

datatype flow = Continue | Fallthrough

definition try_body ::
  "'w platform \<Rightarrow> pystr \<Rightarrow> pystr \<Rightarrow> nat \<Rightarrow> pystr \<Rightarrow> 'w wstate \<Rightarrow> ((exn + flow) \<times> 'w wstate) option" where
  "try_body P source dest idx filename st =
     (let src_path = path_join source filename
      in case os_path_isfile P src_path (world st) of
           Inl e \<Rightarrow> Some (Inl e, st)
         | Inr False \<Rightarrow>
             Some (Inr Continue, put (Progress idx) (put (LogLine (skipping_msg filename)) st))
         | Inr True \<Rightarrow>
             (let category = category_or_other filename;
                  dest_folder = path_join dest category
              in case makedirs P dest_folder st of
                   (Some e, st1) \<Rightarrow> Some (Inl e, st1)
                 | (None, st1) \<Rightarrow>
                     (case get_unique_name (\<lambda>p. os_path_exists P p (world st1)) dest_folder filename of
                        None \<Rightarrow> None
                      | Some unique_name \<Rightarrow>
                          (let dest_path = path_join dest_folder unique_name
                           in case move P src_path dest_path st1 of
                                (Some e, st2) \<Rightarrow> Some (Inl e, st2)
                              | (None, st2) \<Rightarrow>
                                  (let st3 = st2\<lparr>moved_count := moved_count st2 + 1\<rparr>;
                                       timestamp = time_strftime P (world st3)
                                   in Some (Inr Fallthrough,
                                        put (LogLine (moved_msg timestamp filename category unique_name)) st3))))))"

text \<open>One iteration after the check of the stop event: the \<open>try\<close>, its \<open>except
  Exception\<close> handler, and the \<open>progress\<close> that follows.\<close>

definition process_file ::
  "'w platform \<Rightarrow> pystr \<Rightarrow> pystr \<Rightarrow> nat \<Rightarrow> pystr \<Rightarrow> 'w wstate \<Rightarrow> 'w wstate option" where
  "process_file P source dest idx filename st =
     (case try_body P source dest idx filename st of
        None \<Rightarrow> None
      | Some (Inl e, st') \<Rightarrow> Some (put (Progress idx) (put (LogLine (error_msg filename e)) st'))
      | Some (Inr Continue, st') \<Rightarrow> Some st'
      | Some (Inr Fallthrough, st') \<Rightarrow> Some (put (Progress idx) st'))"

text \<open>The loop \<open>for idx, filename in enumerate(files, start=1)\<close>, with its \<open>break\<close>.\<close>

fun move_loop ::
  "'w platform \<Rightarrow> pystr \<Rightarrow> pystr \<Rightarrow> nat \<Rightarrow> pystr list \<Rightarrow> 'w wstate \<Rightarrow> 'w wstate option" where
  "move_loop P source dest idx [] st = Some st"
| "move_loop P source dest idx (filename # files) st =
     (case stopped P st of
        (True, st1) \<Rightarrow> Some (put (LogLine cancelled_msg) st1)
      | (False, st1) \<Rightarrow>
          (case process_file P source dest idx filename st1 of
             None \<Rightarrow> None
           | Some st2 \<Rightarrow> move_loop P source dest (idx + 1) files st2))"

text \<open>
  \<open>OrganizerWorker.run\<close>. The thread ends by returning or with an exception that nothing
  caught; \<open>None\<close> is the run that does not end.
\<close>

datatype 'w outcome = Returned "'w wstate" | Raised exn "'w wstate"

fun final :: "'w outcome \<Rightarrow> 'w wstate" where
  "final (Returned st) = st"
| "final (Raised e st) = st"

definition run :: "'w platform \<Rightarrow> pystr \<Rightarrow> pystr \<Rightarrow> 'w \<Rightarrow> 'w outcome option" where
  "run P source dest w =
     (let st0 = \<lparr>world = w, trace = [], moved_count = 0\<rparr>
      in case list_files P source w of
           Inl e \<Rightarrow> Some (Returned (put (Error (listing_error_msg e)) st0))
         | Inr files \<Rightarrow>
             (let total = length files;
                  st1 = put (Start total) st0
              in case make_category_dirs P dest (map fst FILE_TYPES) st1 of
                   (Some e, st2) \<Rightarrow> Some (Raised e st2)
                 | (None, st2) \<Rightarrow>
                     (case makedirs P (path_join dest OTHER_FOLDER_NAME) st2 of
                        (Some e, st3) \<Rightarrow> Some (Raised e st3)
                      | (None, st3) \<Rightarrow>
                          (case move_loop P source dest 1 files st3 of
                             None \<Rightarrow> None
                           | Some st4 \<Rightarrow> Some (Returned (put (Done (moved_count st4)) st4))))))"

section \<open>A small file system for the examples\<close>

text \<open>
  One environment, which the examples below run the worker on: the regular files and
  the directories by their paths, the files that \<open>shutil.move\<close> may not move, the files
  during whose move the user asks to cancel, and the stop event.
\<close>

record disk =
  file_paths :: "pystr list"
  dir_paths :: "pystr list"
  locked :: "pystr list"
  cancel_during :: "pystr list"
  stop_flag :: bool

definition children :: "pystr \<Rightarrow> disk \<Rightarrow> pystr list" where
  "children p w =
     map (drop (length p + 1))
       (filter (\<lambda>q. take (length p + 1) q = p @ [47] \<and> 47 \<notin> set (drop (length p + 1) q))
          (file_paths w @ dir_paths w))"

definition disk_platform :: "disk platform" where
  "disk_platform =
     \<lparr>os_listdir = (\<lambda>p w.
        if p \<in> set (dir_paths w) then Inr (children p w)
        else Inl (Exception (py ''No such file or directory''))),
      os_path_isfile = (\<lambda>p w. Inr (p \<in> set (file_paths w))),
      os_path_exists = (\<lambda>p w. p \<in> set (file_paths w) \<or> p \<in> set (dir_paths w)),
      os_makedirs = (\<lambda>p w.
        if p \<in> set (file_paths w) then (Some (Exception (py ''File exists'')), w)
        else (None, w\<lparr>dir_paths := List.insert p (dir_paths w)\<rparr>)),
      shutil_move = (\<lambda>src dst w.
        if src \<in> set (locked w) then (Some (Exception (py ''Permission denied'')), w)
        else (None, w\<lparr>file_paths := dst # remove1 src (file_paths w),
                        stop_flag := stop_flag w \<or> src \<in> set (cancel_during w)\<rparr>)),
      time_strftime = (\<lambda>w. py ''2024-01-01 12:00:00''),
      stop_event_is_set = stop_flag\<rparr>"

text \<open>
  The examples: a source \<open>/s\<close> and a destination \<open>/d\<close>. In \<open>disk_scenario\<close> the
  destination already holds \<open>Images/photo.png\<close>; in \<open>disk_blocked\<close> a regular file
  stands where the directory \<open>/d/Images\<close> should be made; in \<open>disk_locked\<close> the first
  file may not be moved; in \<open>disk_cancel\<close> the user asks to cancel while the first of
  three files is moved; in \<open>disk_missing\<close> the source does not exist.
\<close>

definition disk_scenario :: disk where
  "disk_scenario =
     \<lparr>file_paths = map py [''/s/photo.png'', ''/s/doc.pdf'', ''/s/unknown.xyz'', ''/d/Images/photo.png''],
      dir_paths = map py [''/s'', ''/d'', ''/d/Images''],
      locked = [], cancel_during = [], stop_flag = False\<rparr>"

definition disk_blocked :: disk where
  "disk_blocked =
     \<lparr>file_paths = map py [''/s/a.txt'', ''/d/Images''],
      dir_paths = map py [''/s'', ''/d''],
      locked = [], cancel_during = [], stop_flag = False\<rparr>"

definition disk_locked :: disk where
  "disk_locked =
     \<lparr>file_paths = map py [''/s/a.txt'', ''/s/b.txt''],
      dir_paths = map py [''/s'', ''/d''],
      locked = map py [''/s/a.txt''], cancel_during = [], stop_flag = False\<rparr>"

definition disk_cancel :: disk where
  "disk_cancel =
     \<lparr>file_paths = map py [''/s/a.txt'', ''/s/b.txt'', ''/s/c.txt''],
      dir_paths = map py [''/s'', ''/d''],
      locked = [], cancel_during = map py [''/s/a.txt''], stop_flag = False\<rparr>"

definition disk_missing :: disk where
  "disk_missing =
     \<lparr>file_paths = [], dir_paths = map py [''/d''],
      locked = [], cancel_during = [], stop_flag = False\<rparr>"

section \<open>The specification's words\<close>

text \<open>
  An extension is a case-insensitive suffix of a file name when it is a suffix once both
  are lower-cased. Splitting a name at its last dot gives the part before that dot and the
  part from it on; a name without a dot has an empty extension.
\<close>

definition ci_suffix :: "pystr \<Rightarrow> pystr \<Rightarrow> bool" where
  "ci_suffix ext filename \<longleftrightarrow> suffix (str_lower ext) (str_lower filename)"

definition split_last_dot :: "pystr \<Rightarrow> pystr \<times> pystr" where
  "split_last_dot filename =
     (let i = rfind filename 46
      in if i < 0 then (filename, []) else (take (nat i) filename, drop (nat i) filename))"

section \<open>Strings, paths and names: lemmas\<close>

lemma endswith_iff_suffix: "endswith s suf \<longleftrightarrow> suffix suf s"
proof
  assume "endswith s suf"
  then have "s = take (length s - length suf) s @ suf"
    by (metis append_take_drop_id endswith_def)
  then show "suffix suf s"
    by (metis suffixI)
next
  assume "suffix suf s"
  then obtain pre where "s = pre @ suf"
    by (auto simp: suffix_def)
  then show "endswith s suf"
    by (simp add: endswith_def)
qed

lemma endswith_tuple_iff: "endswith_tuple s sufs \<longleftrightarrow> (\<exists>e\<in>set sufs. suffix e s)"
  by (simp add: endswith_tuple_def list_ex_iff endswith_iff_suffix)

lemma lower_cp_fixed: "d \<in> set (lower_cp c) \<Longrightarrow> lower_cp d = [d]"
  by (auto simp: lower_cp_def split: if_splits)

lemma str_lower_idem: "str_lower (str_lower s) = str_lower s"
proof (induction s)
  case Nil
  show ?case by (simp add: str_lower_def)
next
  case (Cons c s)
  have fixed: "concat (map lower_cp (lower_cp c)) = lower_cp c"
    by (auto simp: lower_cp_def)
  show ?case using Cons fixed
    by (simp add: str_lower_def)
qed

lemma lower_upper_ascii: "c < 128 \<Longrightarrow> str_lower (upper_cp c) = lower_cp c"
  by (auto simp: str_lower_def upper_cp_def lower_cp_def)

lemma str_lower_upper_ascii: "\<forall>c\<in>set s. c < 128 \<Longrightarrow> str_lower (str_upper s) = str_lower s"
proof (induction s)
  case Nil
  show ?case by (simp add: str_lower_def str_upper_def)
next
  case (Cons c s)
  then have "str_lower (str_upper s) = str_lower s" and "c < 128" by auto
  moreover have "str_lower (upper_cp c @ str_upper s) = str_lower (upper_cp c) @ str_lower (str_upper s)"
    by (simp add: str_lower_def)
  ultimately show ?case
    using lower_upper_ascii [of c] by (simp add: str_lower_def str_upper_def)
qed

lemma table_lower: "\<forall>(cat, exts)\<in>set FILE_TYPES. \<forall>e\<in>set exts. str_lower e = e"
  by (simp add: FILE_TYPES_def py_def str_lower_def lower_cp_def)

lemma table_lower_rule: "(cat, exts) \<in> set FILE_TYPES \<Longrightarrow> e \<in> set exts \<Longrightarrow> str_lower e = e"
  using table_lower by blast

lemma categorize_loop_find:
  "categorize_loop lower items = map_option fst (find (\<lambda>(cat, exts). \<exists>e\<in>set exts. suffix e lower) items)"
  by (induction items) (auto simp: endswith_tuple_iff)



lemma str_nat_nonempty: "str_nat n \<noteq> []"
  by (subst str_nat.simps) simp

lemma str_nat_inj: "str_nat n = str_nat m \<Longrightarrow> n = m"
proof (induction n arbitrary: m rule: str_nat.induct)
  case (1 n)
  show ?case
  proof (cases "n < 10")
    case True
    then have n: "str_nat n = [48 + n]" by (subst str_nat.simps) simp
    show ?thesis
    proof (cases "m < 10")
      case True
      then have "str_nat m = [48 + m]" by (subst str_nat.simps) simp
      with n "1.prems" show ?thesis by simp
    next
      case False
      then have "str_nat m = str_nat (m div 10) @ [48 + m mod 10]" by (subst str_nat.simps) simp
      with n "1.prems" str_nat_nonempty [of "m div 10"] show ?thesis by (cases "str_nat (m div 10)") auto
    qed
  next
    case False
    then have n: "str_nat n = str_nat (n div 10) @ [48 + n mod 10]" by (subst str_nat.simps) simp
    show ?thesis
    proof (cases "m < 10")
      case True
      then have "str_nat m = [48 + m]" by (subst str_nat.simps) simp
      with n "1.prems" str_nat_nonempty [of "n div 10"] show ?thesis by (cases "str_nat (n div 10)") auto
    next
      case m: False
      then have "str_nat m = str_nat (m div 10) @ [48 + m mod 10]" by (subst str_nat.simps) simp
      with n "1.prems" have "str_nat (n div 10) = str_nat (m div 10)" and "n mod 10 = m mod 10"
        by auto
      with "1.IH" [OF False] have "n div 10 = m div 10" and "n mod 10 = m mod 10" by auto
      then show ?thesis by (metis div_mult_mod_eq)
    qed
  qed
qed

lemma numbered_name_inj: "numbered_name base ext n = numbered_name base ext m \<Longrightarrow> n = m"
  by (simp add: numbered_name_def str_nat_inj)

lemma numbered_name_bound:
  assumes "finite {c. ex (path_join d c)}"
  shows "\<exists>N. \<forall>n\<ge>N. \<not> ex (path_join d (numbered_name base ext n))"
proof -
  have "inj (numbered_name base ext)"
    by (rule injI) (rule numbered_name_inj)
  then have "finite (numbered_name base ext -` {c. ex (path_join d c)})"
    using assms by (rule finite_vimageI [rotated])
  then obtain N where "\<forall>n\<in>numbered_name base ext -` {c. ex (path_join d c)}. n < N"
    using finite_nat_set_iff_bounded by blast
  then have "\<forall>n\<ge>N. \<not> ex (path_join d (numbered_name base ext n))"
    by fastforce
  then show ?thesis ..
qed

lemma unique_name_loop_step:
  "unique_name_loop ex d base ext c k =
     (if ex (path_join d c) then unique_name_loop ex d base ext (numbered_name base ext k) (Suc k) else Some c)"
  by (subst unique_name_loop.simps) (simp add: numbered_name_def)

lemma unique_name_loop_returns:
  assumes "\<forall>n\<ge>N. \<not> ex (path_join d (numbered_name base ext n))"
  shows "\<exists>r. unique_name_loop ex d base ext c k = Some r \<and> \<not> ex (path_join d r) \<and>
           (\<not> ex (path_join d c) \<longrightarrow> r = c) \<and>
           (ex (path_join d c) \<longrightarrow>
              (\<exists>n\<ge>k. r = numbered_name base ext n \<and> (\<forall>j. k \<le> j \<and> j < n \<longrightarrow> ex (path_join d (numbered_name base ext j)))))"
proof (induction "N - k" arbitrary: c k)
  case 0
  then have free: "\<not> ex (path_join d (numbered_name base ext k))"
    using assms by simp
  show ?case
  proof (cases "ex (path_join d c)")
    case False
    then show ?thesis by (subst unique_name_loop_step) simp
  next
    case True
    have "unique_name_loop ex d base ext c k = Some (numbered_name base ext k)"
      using True free by (simp add: unique_name_loop_step [of ex d base ext c k] unique_name_loop_step [of ex d base ext "numbered_name base ext k"])
    with True free show ?thesis by auto
  qed
next
  case (Suc x)
  show ?case
  proof (cases "ex (path_join d c)")
    case False
    then show ?thesis by (subst unique_name_loop_step) simp
  next
    case True
    have "x = N - Suc k" using Suc.hyps by simp
    from Suc.hyps(1) [OF this, of "numbered_name base ext k"]
    obtain r where r: "unique_name_loop ex d base ext (numbered_name base ext k) (Suc k) = Some r"
      "\<not> ex (path_join d r)"
      "\<not> ex (path_join d (numbered_name base ext k)) \<longrightarrow> r = numbered_name base ext k"
      "ex (path_join d (numbered_name base ext k)) \<longrightarrow>
         (\<exists>n\<ge>Suc k. r = numbered_name base ext n \<and> (\<forall>j. Suc k \<le> j \<and> j < n \<longrightarrow> ex (path_join d (numbered_name base ext j))))"
      by blast
    have loop: "unique_name_loop ex d base ext c k = Some r"
      using True r(1) by (simp add: unique_name_loop_step [of ex d base ext c k])
    have "\<exists>n\<ge>k. r = numbered_name base ext n \<and> (\<forall>j. k \<le> j \<and> j < n \<longrightarrow> ex (path_join d (numbered_name base ext j)))"
    proof (cases "ex (path_join d (numbered_name base ext k))")
      case False
      with r(3) show ?thesis by auto
    next
      case ex_k: True
      with r(4) obtain n where n: "Suc k \<le> n" "r = numbered_name base ext n"
        "\<forall>j. Suc k \<le> j \<and> j < n \<longrightarrow> ex (path_join d (numbered_name base ext j))" by blast
      have "\<forall>j. k \<le> j \<and> j < n \<longrightarrow> ex (path_join d (numbered_name base ext j))"
        using n(3) ex_k by (metis Suc_leI le_neq_implies_less)
      with n show ?thesis by (metis Suc_leD)
    qed
    with loop r(2) True show ?thesis by simp
  qed
qed



lemma rfind_range: "- 1 \<le> rfind p c \<and> rfind p c < int (length p)"
proof (cases "filter (\<lambda>i. p ! i = c) (rev [0..<length p])")
  case Nil
  then show ?thesis by (simp add: rfind_def)
next
  case (Cons i rest)
  then have "i \<in> set (filter (\<lambda>i. p ! i = c) (rev [0..<length p]))" by simp
  then have "i < length p" by simp
  with Cons show ?thesis by (simp add: rfind_def)
qed

lemma rfind_absent: "c \<notin> set p \<Longrightarrow> rfind p c = - 1"
proof -
  assume "c \<notin> set p"
  then have "filter (\<lambda>i. p ! i = c) (rev [0..<length p]) = []"
    by (auto simp: filter_empty_conv)
  then show ?thesis by (simp add: rfind_def)
qed

lemma splitext_scan_eq:
  "d \<le> length p \<Longrightarrow>
   splitext_scan p i d =
     (if \<exists>j. i \<le> j \<and> j < d \<and> p ! j \<noteq> 46 then (take d p, drop d p) else (p, []))"
proof (induction p i d rule: splitext_scan.induct)
  case (1 p i d)
  show ?case
  proof (cases "i < d")
    case False
    then show ?thesis by (subst splitext_scan.simps) auto
  next
    case True
    then have i: "i < length p" using "1.prems" by simp
    then have hd: "take 1 (drop i p) = [p ! i]"
      by (metis Cons_nth_drop_Suc One_nat_def take0 take_Suc_Cons)
    show ?thesis
    proof (cases "p ! i = 46")
      case False
      with True hd show ?thesis by (subst splitext_scan.simps) auto
    next
      case dot: True
      have "splitext_scan p i d = splitext_scan p (i + 1) d"
        using True dot hd by (subst splitext_scan.simps) simp
      also have "\<dots> = (if \<exists>j. i + 1 \<le> j \<and> j < d \<and> p ! j \<noteq> 46 then (take d p, drop d p) else (p, []))"
        using "1.IH" [OF True _ "1.prems"] dot hd by simp
      also have "(\<exists>j. i + 1 \<le> j \<and> j < d \<and> p ! j \<noteq> 46) \<longleftrightarrow> (\<exists>j. i \<le> j \<and> j < d \<and> p ! j \<noteq> 46)"
        using dot by (metis Suc_eq_plus1 Suc_leD Suc_leI le_neq_implies_less)
      finally show ?thesis .
    qed
  qed
qed

lemma splitext_no_sep:
  assumes "47 \<notin> set f"
  shows "splitext f = (if \<forall>c\<in>set (fst (split_last_dot f)). c = 46 then (f, []) else split_last_dot f)"
proof (cases "rfind f 46 < 0")
  case True
  then show ?thesis
    using rfind_absent [OF assms] by (simp add: splitext_def split_last_dot_def)
next
  case False
  define d where "d = nat (rfind f 46)"
  have d: "d \<le> length f" "rfind f 46 = int d"
    using False rfind_range [of f 46] by (auto simp: d_def)
  have "(\<exists>j. 0 \<le> j \<and> j < d \<and> f ! j \<noteq> 46) \<longleftrightarrow> \<not> (\<forall>c\<in>set (take d f). c = 46)"
  proof
    assume "\<exists>j. 0 \<le> j \<and> j < d \<and> f ! j \<noteq> 46"
    then obtain j where j: "j < d" "f ! j \<noteq> 46" by blast
    then have "take d f ! j \<in> set (take d f)" using d(1) by (intro nth_mem) simp
    with j show "\<not> (\<forall>c\<in>set (take d f). c = 46)" by auto
  next
    assume "\<not> (\<forall>c\<in>set (take d f). c = 46)"
    then obtain c where "c \<in> set (take d f)" "c \<noteq> 46" by blast
    then obtain j where "j < length (take d f)" "take d f ! j = c"
      by (auto simp: in_set_conv_nth)
    with \<open>c \<noteq> 46\<close> show "\<exists>j. 0 \<le> j \<and> j < d \<and> f ! j \<noteq> 46" by auto
  qed
  then show ?thesis
    using False d rfind_absent [OF assms] splitext_scan_eq [OF d(1), of 0]
    by (simp add: splitext_def split_last_dot_def)
qed


lemma finite_path_join_vimage:
  assumes "finite S"
  shows "finite {c. path_join d c \<in> S}"
proof -
  have "{c. path_join d c \<in> S} \<subseteq> S \<union> drop (length d) ` S \<union> drop (length d + 1) ` S"
  proof
    fix c
    assume "c \<in> {c. path_join d c \<in> S}"
    then have c: "path_join d c \<in> S" by simp
    have "path_join d c = c \<or> path_join d c = d @ c \<or> path_join d c = d @ [47] @ c"
      by (simp add: path_join_def)
    then consider "path_join d c = c" | "path_join d c = d @ c" | "path_join d c = d @ [47] @ c"
      by blast
    then show "c \<in> S \<union> drop (length d) ` S \<union> drop (length d + 1) ` S"
    proof cases
      case 1
      with c show ?thesis by simp
    next
      case 2
      then have "drop (length d) (path_join d c) = c" by simp
      with c show ?thesis by (metis UnI1 UnI2 imageI)
    next
      case 3
      then have "drop (length d + 1) (path_join d c) = c" by simp
      with c show ?thesis by (metis UnI2 imageI)
    qed
  qed
  moreover have "finite (S \<union> drop (length d) ` S \<union> drop (length d + 1) ` S)"
    using assms by simp
  ultimately show ?thesis by (rule finite_subset)
qed

lemmas eval_strings = py_def str_lower_def str_upper_def lower_cp_def upper_cp_def
  endswith_tuple_def endswith_def

lemmas eval_unique_name = get_unique_name_def splitext_def rfind_def splitext_scan.simps
  unique_name_loop.simps numbered_name_def path_join_def str_nat.simps

lemma categorize_loop_keys: "categorize_loop lower items = Some cat \<Longrightarrow> cat \<in> fst ` set items"
  by (induction items) (auto split: if_splits)

section \<open>The classifier\<close>

text \<open>
  Claim C5. For every file name (the empty one included), \<open>categorize_file\<close> returns the
  name of the first category, in the declared order of \<open>FILE_TYPES\<close>, one of whose
  extensions is a case-insensitive suffix of the file name, and \<open>None\<close> when no category
  has such an extension.
\<close>

theorem categorize_file_first_match:
  "categorize_file filename =
     map_option fst (find (\<lambda>(cat, exts). \<exists>ext\<in>set exts. ci_suffix ext filename) FILE_TYPES)"
proof -
  have "find (\<lambda>(cat, exts). \<exists>ext\<in>set exts. ci_suffix ext filename) FILE_TYPES =
        find (\<lambda>(cat, exts). \<exists>ext\<in>set exts. suffix ext (str_lower filename)) FILE_TYPES"
    by (intro find_cong) (auto simp: ci_suffix_def table_lower_rule)
  then show ?thesis
    by (simp add: categorize_file_def categorize_loop_find)
qed

text \<open>The theorem at \<open>Report.Final.DOCX\<close>: the first category with a matching extension
  is \<open>Documents\<close>.\<close>

theorem categorize_file_first_match_witness:
  "map_option fst (find (\<lambda>(cat, exts). \<exists>ext\<in>set exts. ci_suffix ext (py ''Report.Final.DOCX'')) FILE_TYPES)
     = Some (py ''Documents'')"
proof -
  have "categorize_file (py ''Report.Final.DOCX'') = Some (py ''Documents'')"
    by (simp add: categorize_file_def FILE_TYPES_def eval_strings)
  then show ?thesis
    using categorize_file_first_match [of "py ''Report.Final.DOCX''"] by simp
qed

text \<open>
  Claim C7, as amended. \<open>categorize_file\<close> is a function of the lower-cased name: it gives
  the same result on a file name and on its lower-cased form; it gives the same result on
  the upper-cased form when every character of the name is Basic Latin; and
  \<open>categorize_file("A.JPG")\<close> equals \<open>categorize_file("a.jpg")\<close>.
\<close>

theorem categorize_file_case_insensitive:
  "categorize_file (str_lower filename) = categorize_file filename \<and>
   ((\<forall>c\<in>set filename. c < 128) \<longrightarrow> categorize_file (str_upper filename) = categorize_file filename) \<and>
   categorize_file (py ''A.JPG'') = categorize_file (py ''a.jpg'')"
proof (intro conjI impI)
  show "categorize_file (str_lower filename) = categorize_file filename"
    by (simp add: categorize_file_def str_lower_idem)
  show "categorize_file (str_upper filename) = categorize_file filename"
    if "\<forall>c\<in>set filename. c < 128"
    using that by (simp add: categorize_file_def str_lower_upper_ascii)
  have "str_lower (py ''A.JPG'') = str_lower (py ''a.jpg'')"
    by (simp add: eval_strings)
  then show "categorize_file (py ''A.JPG'') = categorize_file (py ''a.jpg'')"
    by (simp add: categorize_file_def)
qed

theorem categorize_file_case_insensitive_witness:
  "list_all (\<lambda>c. c < 128) (py ''song.Mp3'') \<and>
   categorize_file (str_upper (py ''song.Mp3'')) = Some (py ''Music'') \<and>
   categorize_file (str_lower (py ''song.Mp3'')) = Some (py ''Music'')"
proof -
  have ascii: "\<forall>c\<in>set (py ''song.Mp3''). c < 128"
    by (simp add: py_def)
  have "categorize_file (py ''song.Mp3'') = Some (py ''Music'')"
    by (simp add: categorize_file_def FILE_TYPES_def eval_strings)
  with ascii categorize_file_case_insensitive [of "py ''song.Mp3''"] show ?thesis
    by (simp add: list_all_iff)
qed

text \<open>
  The claim as stated fails for the upper-cased form of a name outside Basic Latin: 305 is
  the dotless i (U+0131), whose upper case is \<open>I\<close>. The name \<open>a.g\<close>, U+0131, \<open>f\<close> matches
  no extension, its upper-cased form \<open>A.GIF\<close> is an image.
\<close>

theorem categorize_file_upper_counterexample:
  "str_upper (py ''a.g'' @ [305] @ py ''f'') = py ''A.GIF'' \<and>
   categorize_file (py ''A.GIF'') = Some (py ''Images'') \<and>
   categorize_file (py ''a.g'' @ [305] @ py ''f'') = None"
  by (simp add: categorize_file_def FILE_TYPES_def eval_strings)

text \<open>
  Claim C10. \<open>categorize_file\<close> never returns the name of the folder for the other files:
  its result is \<open>None\<close> or one of the five keys of \<open>FILE_TYPES\<close>, and the worker's
  expression \<open>categorize_file(filename) or OTHER_FOLDER_NAME\<close> is that name exactly when
  the result is \<open>None\<close>.
\<close>

theorem categorize_file_never_other:
  "categorize_file filename \<in>
     {None, Some (py ''Images''), Some (py ''Documents''), Some (py ''Videos''),
      Some (py ''Music''), Some (py ''Archives'')} \<and>
   categorize_file filename \<noteq> Some OTHER_FOLDER_NAME \<and>
   (category_or_other filename = OTHER_FOLDER_NAME \<longleftrightarrow> categorize_file filename = None)"
proof -
  have keys: "cat \<in> {py ''Images'', py ''Documents'', py ''Videos'', py ''Music'', py ''Archives''}"
    if "categorize_file filename = Some cat" for cat
  proof -
    from that have "categorize_loop (str_lower filename) FILE_TYPES = Some cat"
      by (simp add: categorize_file_def)
    then have "cat \<in> fst ` set FILE_TYPES"
      by (rule categorize_loop_keys)
    then show ?thesis
      by (simp add: FILE_TYPES_def)
  qed
  have other: "OTHER_FOLDER_NAME \<notin> {py ''Images'', py ''Documents'', py ''Videos'', py ''Music'', py ''Archives''}"
    and nonempty: "[] \<notin> {py ''Images'', py ''Documents'', py ''Videos'', py ''Music'', py ''Archives''}"
    by (simp_all add: OTHER_FOLDER_NAME_def py_def)
  show ?thesis
  proof (cases "categorize_file filename")
    case None
    then show ?thesis by (simp add: category_or_other_def)
  next
    case (Some cat)
    with keys [OF Some] other nonempty show ?thesis
      by (auto simp: category_or_other_def)
  qed
qed

text \<open>The theorem at the file name \<open>Others\<close> itself, which no extension matches.\<close>

theorem categorize_file_never_other_witness:
  "categorize_file (py ''Others'') = None \<and> category_or_other (py ''Others'') = py ''Others'' \<and>
   categorize_file (py ''Others'') \<noteq> Some OTHER_FOLDER_NAME"
proof -
  have "categorize_file (py ''Others'') = None"
    by (simp add: categorize_file_def FILE_TYPES_def eval_strings)
  with categorize_file_never_other [of "py ''Others''"] show ?thesis
    by (simp add: OTHER_FOLDER_NAME_def)
qed

section \<open>The unique name\<close>

text \<open>
  Claim C6, as amended. When finitely many names exist in the destination directory,
  \<open>get_unique_name\<close> returns; it returns the file name itself when that does not exist
  there, and otherwise the first name \<open>base (n)ext\<close>, for \<open>n = 1, 2, ...\<close>, that does not
  exist there, where \<open>(base, ext)\<close> is \<open>os.path.splitext\<close> of the file name; in both cases
  the name returned does not exist in the directory. For a name without a separator,
  \<open>splitext\<close> splits at the last dot, except that a name with nothing but dots before
  its last dot (such as \<open>.bashrc\<close>) keeps an empty extension.
\<close>

theorem get_unique_name_first_free:
  assumes "finite {c. path_exists (path_join dest_dir c)}"
  shows "\<exists>name. get_unique_name path_exists dest_dir filename = Some name \<and>
      \<not> path_exists (path_join dest_dir name) \<and>
      (\<not> path_exists (path_join dest_dir filename) \<longrightarrow> name = filename) \<and>
      (path_exists (path_join dest_dir filename) \<longrightarrow>
         (\<exists>n\<ge>1. name = numbered_name (fst (splitext filename)) (snd (splitext filename)) n \<and>
            (\<forall>j. 1 \<le> j \<and> j < n \<longrightarrow>
               path_exists (path_join dest_dir
                 (numbered_name (fst (splitext filename)) (snd (splitext filename)) j))))) \<and>
      (47 \<notin> set filename \<longrightarrow>
         splitext filename =
           (if \<forall>c\<in>set (fst (split_last_dot filename)). c = 46 then (filename, [])
            else split_last_dot filename))"
proof -
  obtain base ext where split: "splitext filename = (base, ext)"
    by (cases "splitext filename")
  obtain N where "\<forall>n\<ge>N. \<not> path_exists (path_join dest_dir (numbered_name base ext n))"
    using numbered_name_bound [OF assms] by blast
  from unique_name_loop_returns [OF this, of filename 1]
  obtain name where name: "unique_name_loop path_exists dest_dir base ext filename 1 = Some name"
    "\<not> path_exists (path_join dest_dir name)"
    "\<not> path_exists (path_join dest_dir filename) \<longrightarrow> name = filename"
    "path_exists (path_join dest_dir filename) \<longrightarrow>
       (\<exists>n\<ge>1. name = numbered_name base ext n \<and>
          (\<forall>j. 1 \<le> j \<and> j < n \<longrightarrow> path_exists (path_join dest_dir (numbered_name base ext j))))"
    by blast
  have "get_unique_name path_exists dest_dir filename = Some name"
    using name(1) split by (simp add: get_unique_name_def)
  moreover have "47 \<notin> set filename \<longrightarrow>
         splitext filename =
           (if \<forall>c\<in>set (fst (split_last_dot filename)). c = 46 then (filename, [])
            else split_last_dot filename)"
    using splitext_no_sep by blast
  ultimately show ?thesis
    using name(2-4) split by simp
qed

text \<open>The theorem in a directory that holds \<open>photo.png\<close> and \<open>photo (1).png\<close>.\<close>

theorem get_unique_name_first_free_witness:
  "finite {c. (\<lambda>p. p \<in> set [py ''/d/photo.png'', py ''/d/photo (1).png'']) (path_join (py ''/d'') c)} \<and>
   get_unique_name (\<lambda>p. p \<in> set [py ''/d/photo.png'', py ''/d/photo (1).png''])
     (py ''/d'') (py ''photo.png'') = Some (py ''photo (2).png'') \<and>
   py ''/d/photo (2).png'' \<notin> set [py ''/d/photo.png'', py ''/d/photo (1).png''] \<and>
   splitext (py ''photo.png'') = split_last_dot (py ''photo.png'')"
proof -
  let ?ex = "\<lambda>p. p \<in> set [py ''/d/photo.png'', py ''/d/photo (1).png'']"
  have fin: "finite {c. ?ex (path_join (py ''/d'') c)}"
    by (rule finite_path_join_vimage) simp
  have val: "get_unique_name ?ex (py ''/d'') (py ''photo.png'') = Some (py ''photo (2).png'')"
    by (simp add: eval_unique_name py_def endswith_def)
  have nosep: "47 \<notin> set (py ''photo.png'')"
    by (simp add: py_def)
  have stem: "\<not> (\<forall>c\<in>set (fst (split_last_dot (py ''photo.png''))). c = 46)"
    by (simp add: split_last_dot_def rfind_def py_def)
  from get_unique_name_first_free [OF fin, of "py ''photo.png''"] val nosep stem
  have "\<not> ?ex (path_join (py ''/d'') (py ''photo (2).png''))"
    and "splitext (py ''photo.png'') = split_last_dot (py ''photo.png'')"
    by auto
  moreover have "path_join (py ''/d'') (py ''photo (2).png'') = py ''/d/photo (2).png''"
    by (simp add: path_join_def py_def endswith_def)
  ultimately show ?thesis
    using fin val by simp
qed

text \<open>
  The claim as stated takes the stem and the extension from the split at the last dot. In
  a directory that holds \<open>.bashrc\<close>, that split gives the candidate \<open> (1).bashrc\<close>,
  which does not exist there; \<open>get_unique_name\<close> returns \<open>.bashrc (1)\<close>.
\<close>

theorem get_unique_name_last_dot_counterexample:
  "get_unique_name (\<lambda>p. p \<in> set [py ''/d/.bashrc'']) (py ''/d'') (py ''.bashrc'') = Some (py ''.bashrc (1)'') \<and>
   path_join (py ''/d'') (py ''.bashrc'') \<in> set [py ''/d/.bashrc''] \<and>
   split_last_dot (py ''.bashrc'') = ([], py ''.bashrc'') \<and>
   numbered_name [] (py ''.bashrc'') 1 = py '' (1).bashrc'' \<and>
   path_join (py ''/d'') (py '' (1).bashrc'') \<notin> set [py ''/d/.bashrc''] \<and>
   py '' (1).bashrc'' \<noteq> py ''.bashrc (1)''"
  by (simp add: eval_unique_name split_last_dot_def py_def endswith_def)

text \<open>
  Claim C8. When the set of names that exist in the destination directory is finite, the
  loop of \<open>get_unique_name\<close> ends: the call returns a name.
\<close>

theorem get_unique_name_terminates:
  "finite {c. path_exists (path_join dest_dir c)} \<Longrightarrow>
   \<exists>name. get_unique_name path_exists dest_dir filename = Some name"
proof -
  assume fin: "finite {c. path_exists (path_join dest_dir c)}"
  obtain base ext where split: "splitext filename = (base, ext)"
    by (cases "splitext filename")
  obtain N where "\<forall>n\<ge>N. \<not> path_exists (path_join dest_dir (numbered_name base ext n))"
    using numbered_name_bound [OF fin] by blast
  from unique_name_loop_returns [OF this, of filename 1]
  obtain name where "unique_name_loop path_exists dest_dir base ext filename 1 = Some name"
    by blast
  then show ?thesis
    using split by (simp add: get_unique_name_def)
qed

text \<open>The theorem in a directory where \<open>a\<close>, \<open>a (1)\<close> and \<open>a (2)\<close> exist.\<close>

theorem get_unique_name_terminates_witness:
  "finite {c. (\<lambda>p. p \<in> set [py ''/d/a'', py ''/d/a (1)'', py ''/d/a (2)'']) (path_join (py ''/d'') c)} \<and>
   (\<exists>name. get_unique_name (\<lambda>p. p \<in> set [py ''/d/a'', py ''/d/a (1)'', py ''/d/a (2)''])
      (py ''/d'') (py ''a'') = Some name)"
proof -
  have fin: "finite {c. (\<lambda>p. p \<in> set [py ''/d/a'', py ''/d/a (1)'', py ''/d/a (2)'']) (path_join (py ''/d'') c)}"
    by (rule finite_path_join_vimage) simp
  from get_unique_name_terminates [OF fin, of "py ''a''"] fin show ?thesis
    by blast
qed

section \<open>The worker: lemmas\<close>

lemma events_append: "events (xs @ ys) = events xs @ events ys"
  by (induction xs rule: events.induct) simp_all

lemma progress_indices_append:
  "progress_indices (xs @ ys) = progress_indices xs @ progress_indices ys"
  by (induction xs rule: progress_indices.induct) simp_all

lemma count_moved_append: "count_moved (xs @ ys) = count_moved xs + count_moved ys"
  by (induction xs rule: count_moved.induct) simp_all

lemma events_fs_calls: "\<forall>c\<in>set cs. is_fs_call c \<Longrightarrow> events cs = []"
  by (induction cs rule: events.induct) simp_all

lemma put_simps:
  "trace (put e st) = trace st @ [Put e]"
  "world (put e st) = world st"
  "moved_count (put e st) = moved_count st"
  by (simp_all add: put_def)

lemma stopped_eq:
  "stopped P st = (stop_event_is_set P (world st), st\<lparr>trace := trace st @ [Stopped (stop_event_is_set P (world st))]\<rparr>)"
  by (simp add: stopped_def Let_def)

lemma makedirs_result:
  assumes "makedirs P path st = (r, st')"
  shows "trace st' = trace st @ [Makedirs path r]" and "moved_count st' = moved_count st"
    and "(r, world st') = os_makedirs P path (world st)"
  using assms by (auto simp: makedirs_def split: prod.splits)

lemma move_result:
  assumes "move P src dst st = (r, st')"
  shows "trace st' = trace st @ [Move src dst r]" and "moved_count st' = moved_count st"
    and "(r, world st') = shutil_move P src dst (world st)"
  using assms by (auto simp: move_def split: prod.splits)

lemma messages_not_cancelled:
  "skipping_msg filename \<noteq> cancelled_msg"
  "error_msg filename e \<noteq> cancelled_msg"
  "moved_msg timestamp filename category unique_name \<noteq> cancelled_msg"
  by (simp_all add: skipping_msg_def error_msg_def moved_msg_def cancelled_msg_def py_def)

subsection \<open>What one iteration adds to the trace\<close>

lemma try_body_trace:
  assumes "try_body P source dest idx filename st = Some (r, st')"
  shows "\<exists>calls. (\<forall>c\<in>set calls. is_fs_call c) \<and> count_moved calls \<le> 1 \<and>
           moved_count st' = moved_count st + count_moved calls \<and>
           (case r of
              Inl e \<Rightarrow> trace st' = trace st @ calls \<and> count_moved calls = 0
            | Inr Continue \<Rightarrow>
                calls = [] \<and>
                trace st' = trace st @ [Put (LogLine (skipping_msg filename)), Put (Progress idx)]
            | Inr Fallthrough \<Rightarrow>
                (\<exists>msg. msg \<noteq> cancelled_msg \<and> trace st' = trace st @ calls @ [Put (LogLine msg)]))"
proof (cases "os_path_isfile P (path_join source filename) (world st)")
  case (Inl e)
  with assms have "r = Inl e" "st' = st"
    by (simp_all add: try_body_def)
  then show ?thesis
    by (intro exI [of _ "[]"]) simp
next
  case (Inr b)
  show ?thesis
  proof (cases b)
    case False
    with Inr assms have "r = Inr Continue"
      "st' = put (Progress idx) (put (LogLine (skipping_msg filename)) st)"
      by (simp_all add: try_body_def)
    then show ?thesis
      by (intro exI [of _ "[]"]) (simp add: put_simps)
  next
    case True
    define dest_folder where "dest_folder = path_join dest (category_or_other filename)"
    obtain r1 st1 where mk: "makedirs P dest_folder st = (r1, st1)"
      by (cases "makedirs P dest_folder st")
    note mk1 = makedirs_result [OF mk]
    show ?thesis
    proof (cases r1)
      case (Some e)
      with Inr True mk assms have "r = Inl e" "st' = st1"
        by (simp_all add: try_body_def dest_folder_def)
      with mk1 Some show ?thesis
        by (intro exI [of _ "[Makedirs dest_folder r1]"]) simp
    next
      case None
      show ?thesis
      proof (cases "get_unique_name (\<lambda>p. os_path_exists P p (world st1)) dest_folder filename")
        case no_name: None
        with Inr True mk None assms show ?thesis
          by (simp add: try_body_def dest_folder_def)
      next
        case (Some unique_name)
        define dest_path where "dest_path = path_join dest_folder unique_name"
        obtain r2 st2 where mv: "move P (path_join source filename) dest_path st1 = (r2, st2)"
          by (cases "move P (path_join source filename) dest_path st1")
        note mv1 = move_result [OF mv]
        show ?thesis
        proof (cases r2)
          case failed: (Some e)
          with Inr True mk None Some mv assms have "r = Inl e" "st' = st2"
            by (simp_all add: try_body_def dest_folder_def dest_path_def)
          with mk1 mv1 None failed show ?thesis
            by (intro exI [of _ "[Makedirs dest_folder r1, Move (path_join source filename) dest_path r2]"])
              simp
        next
          case moved: None
          define st3 where "st3 = st2\<lparr>moved_count := moved_count st2 + 1\<rparr>"
          define msg where "msg = moved_msg (time_strftime P (world st3)) filename
            (category_or_other filename) unique_name"
          from Inr True mk None Some mv moved assms
          have "r = Inr Fallthrough" "st' = put (LogLine msg) st3"
            by (simp_all add: try_body_def dest_folder_def dest_path_def st3_def msg_def Let_def)
          moreover have "msg \<noteq> cancelled_msg"
            by (simp add: msg_def messages_not_cancelled)
          ultimately show ?thesis
            using mk1 mv1 None moved
            by (intro exI [of _ "[Makedirs dest_folder r1, Move (path_join source filename) dest_path r2]"])
              (simp add: put_simps st3_def)
        qed
      qed
    qed
  qed
qed

lemma process_file_trace:
  assumes "process_file P source dest idx filename st = Some st'"
  shows "\<exists>calls msg. (\<forall>c\<in>set calls. is_fs_call c) \<and> count_moved calls \<le> 1 \<and> msg \<noteq> cancelled_msg \<and>
           moved_count st' = moved_count st + count_moved calls \<and>
           trace st' = trace st @ calls @ [Put (LogLine msg), Put (Progress idx)]"
proof -
  from assms obtain r st1 where body: "try_body P source dest idx filename st = Some (r, st1)"
    by (cases "try_body P source dest idx filename st") (auto simp: process_file_def)
  from try_body_trace [OF body] obtain calls where calls:
    "\<forall>c\<in>set calls. is_fs_call c" "count_moved calls \<le> 1"
    "moved_count st1 = moved_count st + count_moved calls"
    "case r of
       Inl e \<Rightarrow> trace st1 = trace st @ calls \<and> count_moved calls = 0
     | Inr Continue \<Rightarrow>
         calls = [] \<and>
         trace st1 = trace st @ [Put (LogLine (skipping_msg filename)), Put (Progress idx)]
     | Inr Fallthrough \<Rightarrow>
         (\<exists>msg. msg \<noteq> cancelled_msg \<and> trace st1 = trace st @ calls @ [Put (LogLine msg)])"
    by blast
  show ?thesis
  proof (cases r)
    case (Inl e)
    with body assms have "st' = put (Progress idx) (put (LogLine (error_msg filename e)) st1)"
      by (simp add: process_file_def)
    with calls Inl show ?thesis
      by (intro exI [of _ calls] exI [of _ "error_msg filename e"])
        (simp add: put_simps messages_not_cancelled)
  next
    case (Inr flow)
    show ?thesis
    proof (cases flow)
      case Continue
      with Inr body assms have "st' = st1"
        by (simp add: process_file_def)
      with calls Inr Continue show ?thesis
        by (intro exI [of _ calls] exI [of _ "skipping_msg filename"])
          (simp add: messages_not_cancelled)
    next
      case Fallthrough
      with Inr body assms have "st' = put (Progress idx) st1"
        by (simp add: process_file_def)
      moreover from calls(4) Inr Fallthrough obtain msg where
        "msg \<noteq> cancelled_msg" "trace st1 = trace st @ calls @ [Put (LogLine msg)]"
        by auto
      ultimately show ?thesis
        using calls(1-3)
        by (intro exI [of _ calls] exI [of _ msg]) (simp add: put_simps)
    qed
  qed
qed

lemma fs_calls_not_put: "\<forall>c\<in>set calls. is_fs_call c \<Longrightarrow> Put e \<notin> set calls"
  by auto

lemma fs_calls_not_stopped: "\<forall>c\<in>set calls. is_fs_call c \<Longrightarrow> Stopped b \<notin> set calls"
  by auto

lemma move_loop_trace:
  assumes "move_loop P source dest idx files st = Some st'"
  shows "\<exists>tr k. trace st' = trace st @ tr \<and> moved_count st' = moved_count st + count_moved tr \<and>
     k \<le> length files \<and> progress_indices (events tr) = [idx..<idx + k] \<and> count_moved tr \<le> k \<and>
     (\<forall>e\<in>set (events tr). (\<exists>m. e = LogLine m) \<or> (\<exists>i. e = Progress i)) \<and>
     ((Stopped True \<notin> set tr \<and> Put (LogLine cancelled_msg) \<notin> set tr \<and> k = length files) \<or>
      (\<exists>pre. tr = pre @ [Stopped True, Put (LogLine cancelled_msg)] \<and>
         Stopped True \<notin> set pre \<and> Put (LogLine cancelled_msg) \<notin> set pre)) \<and>
     count_list tr (Stopped False) = k"
  using assms
proof (induction files arbitrary: idx st)
  case Nil
  then have "st' = st" by simp
  then show ?case
    by (intro exI [of _ "[]"] exI [of _ 0]) simp
next
  case (Cons filename files)
  define b where "b = stop_event_is_set P (world st)"
  define st0 where "st0 = st\<lparr>trace := trace st @ [Stopped b]\<rparr>"
  have poll: "stopped P st = (b, st0)"
    by (simp add: stopped_eq b_def st0_def)
  have st0: "trace st0 = trace st @ [Stopped b]" "moved_count st0 = moved_count st"
    by (simp_all add: st0_def)
  show ?case
  proof (cases b)
    case True
    with Cons.prems poll have "st' = put (LogLine cancelled_msg) st0"
      by simp
    with st0 True have "trace st' = trace st @ [Stopped True, Put (LogLine cancelled_msg)]"
      and "moved_count st' = moved_count st"
      by (simp_all add: put_simps)
    then show ?thesis
      by (intro exI [of _ "[Stopped True, Put (LogLine cancelled_msg)]"] exI [of _ 0]) simp
  next
    case False
    with Cons.prems poll obtain st2 where
      one: "process_file P source dest idx filename st0 = Some st2" and
      rest: "move_loop P source dest (idx + 1) files st2 = Some st'"
      by (cases "process_file P source dest idx filename st0") auto
    from process_file_trace [OF one] obtain calls msg where seg:
      "\<forall>c\<in>set calls. is_fs_call c" "count_moved calls \<le> 1" "msg \<noteq> cancelled_msg"
      "moved_count st2 = moved_count st0 + count_moved calls"
      "trace st2 = trace st0 @ calls @ [Put (LogLine msg), Put (Progress idx)]"
      by blast
    from Cons.IH [OF rest] obtain tr2 k2 where ih:
      "trace st' = trace st2 @ tr2" "moved_count st' = moved_count st2 + count_moved tr2"
      "k2 \<le> length files" "progress_indices (events tr2) = [idx + 1..<idx + 1 + k2]"
      "count_moved tr2 \<le> k2"
      "\<forall>e\<in>set (events tr2). (\<exists>m. e = LogLine m) \<or> (\<exists>i. e = Progress i)"
      "(Stopped True \<notin> set tr2 \<and> Put (LogLine cancelled_msg) \<notin> set tr2 \<and> k2 = length files) \<or>
       (\<exists>pre. tr2 = pre @ [Stopped True, Put (LogLine cancelled_msg)] \<and>
          Stopped True \<notin> set pre \<and> Put (LogLine cancelled_msg) \<notin> set pre)"
      "count_list tr2 (Stopped False) = k2"
      by blast
    define seg where "seg = Stopped False # calls @ [Put (LogLine msg), Put (Progress idx)]"
    have seg_events: "events seg = [LogLine msg, Progress idx]"
      using events_fs_calls [OF seg(1)] by (simp add: seg_def events_append)
    have seg_moved: "count_moved seg = count_moved calls"
      by (simp add: seg_def count_moved_append)
    have seg_clean: "Stopped True \<notin> set seg" "Put (LogLine cancelled_msg) \<notin> set seg"
      using fs_calls_not_put [OF seg(1)] fs_calls_not_stopped [OF seg(1)] seg(3)
      by (simp_all add: seg_def)
    have tr: "trace st' = trace st @ seg @ tr2"
      using ih(1) seg(5) st0(1) False by (simp add: seg_def)
    have moved: "moved_count st' = moved_count st + count_moved (seg @ tr2)"
      using ih(2) seg(4) st0(2) seg_moved by (simp add: count_moved_append)
    have idxs: "progress_indices (events (seg @ tr2)) = [idx..<idx + Suc k2]"
      using ih(4) seg_events by (simp add: events_append upt_conv_Cons)
    have le: "count_moved (seg @ tr2) \<le> Suc k2"
      using seg(2) ih(5) seg_moved by (simp add: count_moved_append)
    have evs: "\<forall>e\<in>set (events (seg @ tr2)). (\<exists>m. e = LogLine m) \<or> (\<exists>i. e = Progress i)"
      using ih(6) seg_events by (auto simp: events_append)
    have cancel: "(Stopped True \<notin> set (seg @ tr2) \<and> Put (LogLine cancelled_msg) \<notin> set (seg @ tr2) \<and>
         Suc k2 = length (filename # files)) \<or>
       (\<exists>pre. seg @ tr2 = pre @ [Stopped True, Put (LogLine cancelled_msg)] \<and>
          Stopped True \<notin> set pre \<and> Put (LogLine cancelled_msg) \<notin> set pre)"
      using ih(7)
    proof
      assume "Stopped True \<notin> set tr2 \<and> Put (LogLine cancelled_msg) \<notin> set tr2 \<and> k2 = length files"
      with seg_clean show ?thesis by simp
    next
      assume "\<exists>pre. tr2 = pre @ [Stopped True, Put (LogLine cancelled_msg)] \<and>
          Stopped True \<notin> set pre \<and> Put (LogLine cancelled_msg) \<notin> set pre"
      then obtain pre where pre: "tr2 = pre @ [Stopped True, Put (LogLine cancelled_msg)]"
        "Stopped True \<notin> set pre" "Put (LogLine cancelled_msg) \<notin> set pre"
        by blast
      have "seg @ tr2 = (seg @ pre) @ [Stopped True, Put (LogLine cancelled_msg)]"
        using pre(1) by simp
      moreover have "Stopped True \<notin> set (seg @ pre)" "Put (LogLine cancelled_msg) \<notin> set (seg @ pre)"
        using pre(2,3) seg_clean by simp_all
      ultimately show ?thesis by blast
    qed
    have "count_list calls (Stopped False) = 0"
      using fs_calls_not_stopped [OF seg(1)] by (simp add: count_list_0_iff)
    then have polls: "count_list (seg @ tr2) (Stopped False) = Suc k2"
      using ih(8) by (simp add: seg_def)
    have "Suc k2 \<le> length (filename # files)"
      using ih(3) by simp
    with tr moved idxs le evs cancel polls show ?thesis
      by (intro exI [of _ "seg @ tr2"] exI [of _ "Suc k2"]) blast
  qed
qed

lemma make_category_dirs_trace:
  assumes "make_category_dirs P dest cats st = (r, st')"
  shows "\<exists>calls. trace st' = trace st @ calls \<and> (\<forall>c\<in>set calls. \<exists>path r'. c = Makedirs path r') \<and>
           moved_count st' = moved_count st"
  using assms
proof (induction cats arbitrary: st)
  case Nil
  then show ?case by simp
next
  case (Cons cat cats)
  obtain r1 st1 where mk: "makedirs P (path_join dest cat) st = (r1, st1)"
    by (cases "makedirs P (path_join dest cat) st")
  note mk1 = makedirs_result [OF mk]
  show ?case
  proof (cases r1)
    case (Some e)
    with Cons.prems mk have "st' = st1" by simp
    with mk1 show ?thesis
      by (intro exI [of _ "[Makedirs (path_join dest cat) r1]"]) simp
  next
    case None
    with Cons.prems mk have "make_category_dirs P dest cats st1 = (r, st')" by simp
    from Cons.IH [OF this] obtain calls where
      "trace st' = trace st1 @ calls" "\<forall>c\<in>set calls. \<exists>path r'. c = Makedirs path r'"
      "moved_count st' = moved_count st1"
      by blast
    with mk1 show ?thesis
      by (intro exI [of _ "Makedirs (path_join dest cat) r1 # calls"]) simp
  qed
qed

lemma makedirs_calls_silent:
  assumes "\<forall>c\<in>set calls. \<exists>path r. c = Makedirs path r"
  shows "events calls = []" and "Stopped b \<notin> set calls" and "Put e \<notin> set calls"
proof -
  from assms have "\<forall>c\<in>set calls. is_fs_call c" by auto
  then show "events calls = []" by (rule events_fs_calls)
  from assms show "Stopped b \<notin> set calls" and "Put e \<notin> set calls" by auto
qed

lemma makedirs_calls_no_move:
  "\<forall>c\<in>set calls. \<exists>path r. c = Makedirs path r \<Longrightarrow> count_moved calls = 0"
  by (induction calls rule: count_moved.induct) auto

lemma run_cases [consumes 1, case_names listing_failed preparing_failed finished]:
  assumes "run P source dest w = Some out"
  obtains
    e where "list_files P source w = Inl e"
      "out = Returned \<lparr>world = w, trace = [Put (Error (listing_error_msg e))], moved_count = 0\<rparr>"
  | names prep e st where "list_files P source w = Inr names" "out = Raised e st"
      "trace st = Put (Start (length names)) # prep"
      "\<forall>c\<in>set prep. \<exists>path r. c = Makedirs path r"
  | names prep tr k st where "list_files P source w = Inr names" "out = Returned st"
      "trace st = Put (Start (length names)) # prep @ tr @ [Put (Done (count_moved tr))]"
      "\<forall>c\<in>set prep. \<exists>path r. c = Makedirs path r"
      "k \<le> length names" "progress_indices (events tr) = [1..<1 + k]" "count_moved tr \<le> k"
      "\<forall>e\<in>set (events tr). (\<exists>m. e = LogLine m) \<or> (\<exists>i. e = Progress i)"
      "(Stopped True \<notin> set tr \<and> Put (LogLine cancelled_msg) \<notin> set tr \<and> k = length names) \<or>
       (\<exists>pre. tr = pre @ [Stopped True, Put (LogLine cancelled_msg)] \<and>
          Stopped True \<notin> set pre \<and> Put (LogLine cancelled_msg) \<notin> set pre)"
      "count_list tr (Stopped False) = k"
proof (cases "list_files P source w")
  case (Inl e)
  with assms have "out = Returned \<lparr>world = w, trace = [Put (Error (listing_error_msg e))], moved_count = 0\<rparr>"
    by (simp add: run_def put_def)
  with Inl show ?thesis by (rule that(1))
next
  case (Inr names)
  define st1 where "st1 = put (Start (length names)) \<lparr>world = w, trace = [], moved_count = 0\<rparr>"
  have st1: "trace st1 = [Put (Start (length names))]" "moved_count st1 = 0"
    by (simp_all add: st1_def put_def)
  obtain r2 st2 where cats: "make_category_dirs P dest (map fst FILE_TYPES) st1 = (r2, st2)"
    by (cases "make_category_dirs P dest (map fst FILE_TYPES) st1")
  from make_category_dirs_trace [OF cats] obtain calls where calls:
    "trace st2 = trace st1 @ calls" "\<forall>c\<in>set calls. \<exists>path r'. c = Makedirs path r'"
    "moved_count st2 = moved_count st1"
    by blast
  show ?thesis
  proof (cases r2)
    case (Some e)
    with assms Inr cats have "out = Raised e st2"
      by (simp add: run_def st1_def Let_def)
    moreover have "trace st2 = Put (Start (length names)) # calls"
      using calls(1) st1(1) by simp
    ultimately show ?thesis
      using Inr calls(2) by (intro that(2))
  next
    case None
    obtain r3 st3 where other: "makedirs P (path_join dest OTHER_FOLDER_NAME) st2 = (r3, st3)"
      by (cases "makedirs P (path_join dest OTHER_FOLDER_NAME) st2")
    note other1 = makedirs_result [OF other]
    define prep where "prep = calls @ [Makedirs (path_join dest OTHER_FOLDER_NAME) r3]"
    have prep: "trace st3 = Put (Start (length names)) # prep"
      "\<forall>c\<in>set prep. \<exists>path r. c = Makedirs path r" "moved_count st3 = 0"
      using calls st1 other1 by (auto simp: prep_def)
    show ?thesis
    proof (cases r3)
      case (Some e)
      with assms Inr cats None other have "out = Raised e st3"
        by (simp add: run_def st1_def Let_def)
      with Inr prep show ?thesis by (intro that(2))
    next
      case no_exn: None
      from assms Inr cats None other no_exn obtain st4 where
        loop: "move_loop P source dest 1 names st3 = Some st4" and
        out: "out = Returned (put (Done (moved_count st4)) st4)"
        by (cases "move_loop P source dest 1 names st3") (auto simp: run_def st1_def Let_def)
      from move_loop_trace [OF loop] obtain tr k where tr:
        "trace st4 = trace st3 @ tr" "moved_count st4 = moved_count st3 + count_moved tr"
        "k \<le> length names" "progress_indices (events tr) = [1..<1 + k]" "count_moved tr \<le> k"
        "\<forall>e\<in>set (events tr). (\<exists>m. e = LogLine m) \<or> (\<exists>i. e = Progress i)"
        "(Stopped True \<notin> set tr \<and> Put (LogLine cancelled_msg) \<notin> set tr \<and> k = length names) \<or>
         (\<exists>pre. tr = pre @ [Stopped True, Put (LogLine cancelled_msg)] \<and>
            Stopped True \<notin> set pre \<and> Put (LogLine cancelled_msg) \<notin> set pre)"
        "count_list tr (Stopped False) = k"
        by blast
      have "trace (put (Done (moved_count st4)) st4) =
          Put (Start (length names)) # prep @ tr @ [Put (Done (count_moved tr))]"
        using tr(1,2) prep(1,3) by (simp add: put_simps)
      with Inr out prep(2) tr(3-8) show ?thesis by (intro that(3))
    qed
  qed
qed

lemma run_events:
  assumes "run P source dest w = Some out"
  shows "(\<exists>e. out = Returned \<lparr>world = w, trace = [Put (Error (listing_error_msg e))], moved_count = 0\<rparr>) \<or>
    (\<exists>n e st. out = Raised e st \<and> events (trace st) = [Start n]) \<or>
    (\<exists>n evs m st. out = Returned st \<and> events (trace st) = Start n # evs @ [Done m] \<and>
       (\<forall>e\<in>set evs. (\<exists>text. e = LogLine text) \<or> (\<exists>i. e = Progress i)))"
  using assms
proof (cases rule: run_cases)
  case (listing_failed e)
  then show ?thesis by blast
next
  case (preparing_failed names prep e st)
  then have "events (trace st) = [Start (length names)]"
    using makedirs_calls_silent(1) [OF preparing_failed(4)] by simp
  with preparing_failed(2) show ?thesis by blast
next
  case (finished names prep tr k st)
  then have "events (trace st) = Start (length names) # events tr @ [Done (count_moved tr)]"
    using makedirs_calls_silent(1) [OF finished(4)] by (simp add: events_append)
  with finished(2,8) show ?thesis by blast
qed

subsection \<open>The worker returns when directories are finite\<close>

lemma get_unique_name_returns:
  assumes "finite {c. path_exists (path_join dest_dir c)}"
  shows "\<exists>name. get_unique_name path_exists dest_dir filename = Some name"
proof -
  obtain base ext where split: "splitext filename = (base, ext)"
    by (cases "splitext filename")
  obtain N where "\<forall>n\<ge>N. \<not> path_exists (path_join dest_dir (numbered_name base ext n))"
    using numbered_name_bound [OF assms] by blast
  from unique_name_loop_returns [OF this, of filename 1]
  obtain name where "unique_name_loop path_exists dest_dir base ext filename 1 = Some name"
    by blast
  then show ?thesis
    using split by (simp add: get_unique_name_def)
qed

lemma try_body_returns:
  assumes "finite_directories P"
  shows "\<exists>r. try_body P source dest idx filename st = Some r"
proof -
  have "\<exists>name. get_unique_name (\<lambda>p. os_path_exists P p w) dir filename = Some name" for w dir
    using assms by (intro get_unique_name_returns) (simp add: finite_directories_def)
  then have name: "(get_unique_name (\<lambda>p. os_path_exists P p w) dir filename = None) = False" for w dir
    by (metis option.distinct(1))
  show ?thesis
    by (auto simp: name try_body_def Let_def split: sum.splits bool.splits prod.splits option.splits)
qed

lemma process_file_returns:
  assumes "finite_directories P"
  shows "\<exists>st'. process_file P source dest idx filename st = Some st'"
proof -
  from try_body_returns [OF assms] obtain r where "try_body P source dest idx filename st = Some r"
    by blast
  then show ?thesis
    by (auto simp: process_file_def split: prod.splits sum.splits flow.splits)
qed

lemma move_loop_returns:
  assumes "finite_directories P"
  shows "\<exists>st'. move_loop P source dest idx names st = Some st'"
proof (induction names arbitrary: idx st)
  case Nil
  show ?case by simp
next
  case (Cons filename names)
  obtain b st0 where poll: "stopped P st = (b, st0)"
    by (cases "stopped P st")
  from process_file_returns [OF assms] obtain st2 where
    "process_file P source dest idx filename st0 = Some st2"
    by blast
  with poll Cons.IH [of "idx + 1" st2] show ?case
    by (cases b) simp_all
qed

lemma run_returns:
  assumes "finite_directories P"
  shows "\<exists>out. run P source dest w = Some out"
proof -
  have "\<exists>st'. move_loop P source dest 1 names st = Some st'" for names st
    using assms by (rule move_loop_returns)
  then have loop: "(move_loop P source dest (Suc 0) names st = None) = False" for names st
    by (metis One_nat_def option.distinct(1))
  show ?thesis
    by (auto simp: loop run_def Let_def split: sum.splits prod.splits option.splits)
qed

lemma finite_directories_disk: "finite_directories disk_platform"
proof -
  have "{name. path_join dir name \<in> set (file_paths w) \<or> path_join dir name \<in> set (dir_paths w)} =
        {name. path_join dir name \<in> set (file_paths w @ dir_paths w)}" for dir and w :: disk
    by auto
  moreover have "finite {name. path_join dir name \<in> set (file_paths w @ dir_paths w)}" for dir and w :: disk
    by (rule finite_path_join_vimage) simp
  ultimately show ?thesis
    by (simp add: finite_directories_def disk_platform_def)
qed

subsection \<open>The examples, evaluated\<close>

lemmas eval_run = run_def list_files_def disk_platform_def children_def put_def makedirs_def move_def
  stopped_def process_file_def try_body_def category_or_other_def categorize_file_def
  FILE_TYPES_def OTHER_FOLDER_NAME_def eval_strings eval_unique_name Let_def
  listing_error_msg_def cancelled_msg_def skipping_msg_def moved_msg_def error_msg_def

lemma scenario_events:
  "map_option (\<lambda>out. events (trace (final out))) (run disk_platform (py ''/s'') (py ''/d'') disk_scenario) =
     Some [Start 3,
       LogLine (py ''[SYS] [2024-01-01 12:00:00] Moved: photo.png '' @ [8594] @ py '' Images/photo (1).png''),
       Progress 1,
       LogLine (py ''[SYS] [2024-01-01 12:00:00] Moved: doc.pdf '' @ [8594] @ py '' Documents/doc.pdf''),
       Progress 2,
       LogLine (py ''[SYS] [2024-01-01 12:00:00] Moved: unknown.xyz '' @ [8594] @ py '' Others/unknown.xyz''),
       Progress 3, Done 3]"
  by (simp add: eval_run disk_scenario_def)

lemma locked_trace:
  "\<exists>st. run disk_platform (py ''/s'') (py ''/d'') disk_locked = Some (Returned st) \<and>
     trace st =
       [Put (Start 2),
        Makedirs (py ''/d/Images'') None, Makedirs (py ''/d/Documents'') None,
        Makedirs (py ''/d/Videos'') None, Makedirs (py ''/d/Music'') None,
        Makedirs (py ''/d/Archives'') None, Makedirs (py ''/d/Others'') None,
        Stopped False,
        Makedirs (py ''/d/Documents'') None,
        Move (py ''/s/a.txt'') (py ''/d/Documents/a.txt'') (Some (Exception (py ''Permission denied''))),
        Put (LogLine (py ''[SYS] ERROR moving a.txt: Permission denied'')),
        Put (Progress 1),
        Stopped False,
        Makedirs (py ''/d/Documents'') None,
        Move (py ''/s/b.txt'') (py ''/d/Documents/b.txt'') None,
        Put (LogLine (py ''[SYS] [2024-01-01 12:00:00] Moved: b.txt '' @ [8594] @ py '' Documents/b.txt'')),
        Put (Progress 2),
        Put (Done 1)]"
  by (simp add: eval_run disk_locked_def)

lemma cancel_trace:
  "map_option (\<lambda>out. trace (final out)) (run disk_platform (py ''/s'') (py ''/d'') disk_cancel) =
     Some [Put (Start 3),
       Makedirs (py ''/d/Images'') None, Makedirs (py ''/d/Documents'') None,
       Makedirs (py ''/d/Videos'') None, Makedirs (py ''/d/Music'') None,
       Makedirs (py ''/d/Archives'') None, Makedirs (py ''/d/Others'') None,
       Stopped False,
       Makedirs (py ''/d/Documents'') None,
       Move (py ''/s/a.txt'') (py ''/d/Documents/a.txt'') None,
       Put (LogLine (py ''[SYS] [2024-01-01 12:00:00] Moved: a.txt '' @ [8594] @ py '' Documents/a.txt'')),
       Put (Progress 1),
       Stopped True,
       Put (LogLine (py ''[SYS] Operation cancelled by user.'')),
       Put (Done 1)]"
  by (simp add: eval_run disk_cancel_def)

section \<open>The worker: the events of a run\<close>

text \<open>
  Claim C1 says that a run which puts \<open>Start\<close> ends with exactly one \<open>Done\<close>. The
  calls of \<open>os.makedirs\<close> that prepare the destination stand after the \<open>Start\<close> and
  outside every \<open>try\<close>. On \<open>disk_blocked\<close>, where a regular file stands at
  \<open>/d/Images\<close>, the run puts \<open>Start 1\<close>, the first \<open>os.makedirs\<close> raises, and the
  thread ends with that exception: no \<open>Done\<close> is put.
\<close>

theorem run_start_without_done:
  "run disk_platform (py ''/s'') (py ''/d'') disk_blocked =
     Some (Raised (Exception (py ''File exists''))
       \<lparr>world = disk_blocked,
        trace = [Put (Start 1), Makedirs (py ''/d/Images'') (Some (Exception (py ''File exists'')))],
        moved_count = 0\<rparr>)"
  by (simp add: eval_run disk_blocked_def)

text \<open>
  Claim C9. When listing the source fails, the run returns with the world as it was and
  with the \<open>Error\<close> as the only entry of its trace; and a run whose events hold an
  \<open>Error\<close> is such a run: its world is unchanged, and its trace holds no call of
  \<open>os.makedirs\<close> or \<open>shutil.move\<close>.
\<close>

theorem listing_error_changes_nothing:
  "(\<forall>e. list_files P source w = Inl e \<longrightarrow>
      run P source dest w =
        Some (Returned \<lparr>world = w, trace = [Put (Error (listing_error_msg e))], moved_count = 0\<rparr>)) \<and>
   (\<forall>out msg. run P source dest w = Some out \<and> Error msg \<in> set (events (trace (final out))) \<longrightarrow>
      world (final out) = w \<and> trace (final out) = [Put (Error msg)] \<and>
      (\<forall>c\<in>set (trace (final out)). \<not> is_fs_call c))"
proof (intro conjI allI impI)
  fix e
  assume "list_files P source w = Inl e"
  then show "run P source dest w =
      Some (Returned \<lparr>world = w, trace = [Put (Error (listing_error_msg e))], moved_count = 0\<rparr>)"
    by (simp add: run_def put_def)
next
  fix out msg
  assume "run P source dest w = Some out \<and> Error msg \<in> set (events (trace (final out)))"
  then have out: "run P source dest w = Some out"
    and err: "Error msg \<in> set (events (trace (final out)))"
    by simp_all
  from out have "world (final out) = w \<and> trace (final out) = [Put (Error msg)]"
  proof (cases rule: run_cases)
    case (listing_failed e)
    with err show ?thesis by simp
  next
    case (preparing_failed names prep e st)
    with err makedirs_calls_silent(1) [OF preparing_failed(4)] show ?thesis
      by simp
  next
    case (finished names prep tr k st)
    with err makedirs_calls_silent(1) [OF finished(4)] show ?thesis
      by (auto simp: events_append)
  qed
  then show "world (final out) = w" and "trace (final out) = [Put (Error msg)]"
    and "\<forall>c\<in>set (trace (final out)). \<not> is_fs_call c"
    by simp_all
qed

text \<open>The theorem on \<open>disk_missing\<close>, where the source does not exist.\<close>

theorem listing_error_changes_nothing_witness:
  "list_files disk_platform (py ''/s'') disk_missing = Inl (Exception (py ''No such file or directory'')) \<and>
   (\<exists>out. run disk_platform (py ''/s'') (py ''/d'') disk_missing = Some out \<and>
      events (trace (final out)) = [Error (py ''Failed to list source folder: No such file or directory'')] \<and>
      world (final out) = disk_missing \<and> list_all (\<lambda>c. \<not> is_fs_call c) (trace (final out)))"
proof -
  have listing: "list_files disk_platform (py ''/s'') disk_missing =
      Inl (Exception (py ''No such file or directory''))"
    by (simp add: list_files_def disk_platform_def disk_missing_def py_def)
  with listing_error_changes_nothing [of disk_platform "py ''/s''" disk_missing "py ''/d''"]
  have out: "run disk_platform (py ''/s'') (py ''/d'') disk_missing =
      Some (Returned \<lparr>world = disk_missing,
        trace = [Put (Error (listing_error_msg (Exception (py ''No such file or directory''))))],
        moved_count = 0\<rparr>)"
    by blast
  show ?thesis
    using listing out by (simp add: listing_error_msg_def py_def)
qed

text \<open>
  Claim C4. The run returns when directories are finite. In a run that puts
  \<open>Start total\<close>, \<open>total\<close> is the number of files listed, and with \<open>k\<close> the number of
  iterations entered (the readings of the stop event as not set, one per file considered,
  whether the file is then moved, skipped or fails): \<open>k \<le> total\<close>, the indices of the
  \<open>Progress\<close> events are \<open>1, 2, ..., k\<close> in this order, and the count of every
  \<open>Done\<close> is at most \<open>k\<close>. When the run returns without having read the stop event
  as set, \<open>k = total\<close>: every file listed has its \<open>Progress\<close>.
\<close>

theorem progress_indices_count_up:
  "(finite_directories P \<longrightarrow> (\<exists>out. run P source dest w = Some out)) \<and>
   (\<forall>out total. run P source dest w = Some out \<and> Start total \<in> set (events (trace (final out))) \<longrightarrow>
      (\<exists>names k. list_files P source w = Inr names \<and> total = length names \<and>
         k = count_list (trace (final out)) (Stopped False) \<and> k \<le> total \<and>
         progress_indices (events (trace (final out))) = [1..<Suc k] \<and>
         (\<forall>m. Done m \<in> set (events (trace (final out))) \<longrightarrow> m \<le> k) \<and>
         ((\<exists>st. out = Returned st) \<and> Stopped True \<notin> set (trace (final out)) \<longrightarrow> k = total)))"
proof (intro conjI allI impI)
  assume "finite_directories P"
  then show "\<exists>out. run P source dest w = Some out"
    by (rule run_returns)
next
  fix out total
  assume "run P source dest w = Some out \<and> Start total \<in> set (events (trace (final out)))"
  then have out: "run P source dest w = Some out"
    and start: "Start total \<in> set (events (trace (final out)))"
    by simp_all
  from out show "\<exists>names k. list_files P source w = Inr names \<and> total = length names \<and>
         k = count_list (trace (final out)) (Stopped False) \<and> k \<le> total \<and>
         progress_indices (events (trace (final out))) = [1..<Suc k] \<and>
         (\<forall>m. Done m \<in> set (events (trace (final out))) \<longrightarrow> m \<le> k) \<and>
         ((\<exists>st. out = Returned st) \<and> Stopped True \<notin> set (trace (final out)) \<longrightarrow> k = total)"
  proof (cases rule: run_cases)
    case (listing_failed e)
    with start show ?thesis by simp
  next
    case (preparing_failed names prep e st)
    note silent = makedirs_calls_silent [OF preparing_failed(4)]
    have evs: "events (trace (final out)) = [Start (length names)]"
      using preparing_failed(2,3) silent(1) by simp
    have "total = length names"
      using start unfolding evs by simp
    moreover have "count_list (trace (final out)) (Stopped False) = 0"
      using preparing_failed(2,3) silent(2) [of False] by (simp add: count_list_0_iff)
    ultimately show ?thesis
      using preparing_failed(1,2) evs by simp
  next
    case (finished names prep tr k st)
    note silent = makedirs_calls_silent [OF finished(4)]
    have evs: "events (trace (final out)) =
        Start (length names) # events tr @ [Done (count_moved tr)]"
      using finished(2,3) silent(1) by (simp add: events_append)
    have total: "total = length names"
      using start finished(8) unfolding evs by auto
    have "count_list prep (Stopped False) = 0"
      using silent(2) [of False] by (simp add: count_list_0_iff)
    then have polls: "count_list (trace (final out)) (Stopped False) = k"
      using finished(2,3,10) by simp
    have idxs: "progress_indices (events (trace (final out))) = [1..<Suc k]"
      using finished(6) unfolding evs by (simp add: progress_indices_append)
    have counts: "m \<le> k" if "Done m \<in> set (events (trace (final out)))" for m
    proof -
      from that finished(8) have "m = count_moved tr"
        unfolding evs by auto
      with finished(7) show ?thesis by simp
    qed
    have all: "k = total" if "Stopped True \<notin> set (trace (final out))"
    proof -
      from that have "Stopped True \<notin> set tr"
        using finished(2,3) by simp
      with finished(9) total show ?thesis by auto
    qed
    from finished(1) total polls finished(5) idxs counts all show ?thesis
      by auto
  qed
qed

text \<open>The theorem on \<open>disk_locked\<close>: the first of two files fails to move and has its
  \<open>Progress\<close> all the same; the indices are 1, 2 and one move is counted.\<close>

theorem progress_indices_count_up_witness:
  "finite_directories disk_platform \<and>
   (\<exists>out. run disk_platform (py ''/s'') (py ''/d'') disk_locked = Some out \<and>
      Start 2 \<in> set (events (trace (final out))) \<and>
      Move (py ''/s/a.txt'') (py ''/d/Documents/a.txt'') (Some (Exception (py ''Permission denied'')))
        \<in> set (trace (final out)) \<and>
      Stopped True \<notin> set (trace (final out)) \<and>
      count_list (trace (final out)) (Stopped False) = 2 \<and>
      progress_indices (events (trace (final out))) = [1, 2] \<and>
      Done 1 \<in> set (events (trace (final out))))"
proof -
  from locked_trace obtain st where
    out: "run disk_platform (py ''/s'') (py ''/d'') disk_locked = Some (Returned st)" and
    tr: "trace st =
       [Put (Start 2),
        Makedirs (py ''/d/Images'') None, Makedirs (py ''/d/Documents'') None,
        Makedirs (py ''/d/Videos'') None, Makedirs (py ''/d/Music'') None,
        Makedirs (py ''/d/Archives'') None, Makedirs (py ''/d/Others'') None,
        Stopped False,
        Makedirs (py ''/d/Documents'') None,
        Move (py ''/s/a.txt'') (py ''/d/Documents/a.txt'') (Some (Exception (py ''Permission denied''))),
        Put (LogLine (py ''[SYS] ERROR moving a.txt: Permission denied'')),
        Put (Progress 1),
        Stopped False,
        Makedirs (py ''/d/Documents'') None,
        Move (py ''/s/b.txt'') (py ''/d/Documents/b.txt'') None,
        Put (LogLine (py ''[SYS] [2024-01-01 12:00:00] Moved: b.txt '' @ [8594] @ py '' Documents/b.txt'')),
        Put (Progress 2),
        Put (Done 1)]"
    by blast
  have start: "Start 2 \<in> set (events (trace (final (Returned st))))"
    and last: "Done 1 \<in> set (events (trace (final (Returned st))))"
    and failed: "Move (py ''/s/a.txt'') (py ''/d/Documents/a.txt'') (Some (Exception (py ''Permission denied'')))
        \<in> set (trace (final (Returned st)))"
    and unset: "Stopped True \<notin> set (trace (final (Returned st)))"
    by (simp_all add: tr)
  from progress_indices_count_up [of disk_platform "py ''/s''" "py ''/d''" disk_locked] out start
  obtain k where k: "k = count_list (trace (final (Returned st))) (Stopped False)"
    "progress_indices (events (trace (final (Returned st)))) = [1..<Suc k]"
    "(\<exists>st'. Returned st = Returned st') \<and> Stopped True \<notin> set (trace (final (Returned st))) \<longrightarrow> k = 2"
    by blast
  from k(3) unset have "k = 2" by blast
  with k(1,2) have "count_list (trace (final (Returned st))) (Stopped False) = 2"
    and "progress_indices (events (trace (final (Returned st)))) = [1, 2]"
    by (simp_all add: upt_rec)
  with out start last failed unset finite_directories_disk show ?thesis
    by blast
qed

text \<open>
  Claim C3. The run returns when directories are finite. In a run that reads the stop
  event as set, at the head of an iteration, the trace ends with that reading, the one
  \<open>LogLine\<close> of the cancellation and \<open>Done\<close>: no file is processed after it (no call
  of \<open>shutil.move\<close>, no \<open>Progress\<close>), the stop event was not read as set before, and
  the count of \<open>Done\<close> is the number of moves that succeeded before.
\<close>

theorem cancellation_ends_the_run:
  "(finite_directories P \<longrightarrow> (\<exists>out. run P source dest w = Some out)) \<and>
   (\<forall>out. run P source dest w = Some out \<and> Stopped True \<in> set (trace (final out)) \<longrightarrow>
      (\<exists>pre st. out = Returned st \<and>
         trace st = pre @ [Stopped True, Put (LogLine cancelled_msg), Put (Done (count_moved pre))] \<and>
         Stopped True \<notin> set pre \<and> Put (LogLine cancelled_msg) \<notin> set pre))"
proof (intro conjI allI impI)
  assume "finite_directories P"
  then show "\<exists>out. run P source dest w = Some out"
    by (rule run_returns)
next
  fix out
  assume "run P source dest w = Some out \<and> Stopped True \<in> set (trace (final out))"
  then have out: "run P source dest w = Some out"
    and flag: "Stopped True \<in> set (trace (final out))"
    by simp_all
  from out show "\<exists>pre st. out = Returned st \<and>
         trace st = pre @ [Stopped True, Put (LogLine cancelled_msg), Put (Done (count_moved pre))] \<and>
         Stopped True \<notin> set pre \<and> Put (LogLine cancelled_msg) \<notin> set pre"
  proof (cases rule: run_cases)
    case (listing_failed e)
    with flag show ?thesis by simp
  next
    case (preparing_failed names prep e st)
    with flag makedirs_calls_silent(2) [OF preparing_failed(4), of True] show ?thesis
      by simp
  next
    case (finished names prep tr k st)
    note silent = makedirs_calls_silent [OF finished(4)]
    have "Stopped True \<in> set tr"
      using flag finished(2,3) silent(2) [of True] by simp
    with finished(9) obtain pre where pre:
      "tr = pre @ [Stopped True, Put (LogLine cancelled_msg)]"
      "Stopped True \<notin> set pre" "Put (LogLine cancelled_msg) \<notin> set pre"
      by blast
    define whole where "whole = Put (Start (length names)) # prep @ pre"
    have moved: "count_moved whole = count_moved tr"
      using makedirs_calls_no_move [OF finished(4)] pre(1)
      by (simp add: whole_def count_moved_append)
    have "trace st = whole @ [Stopped True, Put (LogLine cancelled_msg), Put (Done (count_moved whole))]"
      using finished(3) pre(1) moved by (simp add: whole_def)
    moreover have "Stopped True \<notin> set whole" "Put (LogLine cancelled_msg) \<notin> set whole"
      using pre(2,3) silent(2) [of True] silent(3) [of "LogLine cancelled_msg"]
      by (simp_all add: whole_def)
    ultimately show ?thesis
      using finished(2) by blast
  qed
qed

text \<open>The theorem on \<open>disk_cancel\<close>: the user cancels while the first of three files is
  moved; the run ends with \<open>Done 1\<close> after one \<open>Progress\<close>.\<close>

theorem cancellation_ends_the_run_witness:
  "finite_directories disk_platform \<and>
   (\<exists>out pre. run disk_platform (py ''/s'') (py ''/d'') disk_cancel = Some out \<and>
      Stopped True \<in> set (trace (final out)) \<and>
      trace (final out) = pre @ [Stopped True, Put (LogLine cancelled_msg), Put (Done (count_moved pre))] \<and>
      Done 1 \<in> set (events (trace (final out))) \<and>
      progress_indices (events (trace (final out))) = [1])"
proof -
  from cancellation_ends_the_run [of disk_platform "py ''/s''" "py ''/d''" disk_cancel]
    finite_directories_disk
  obtain out where out: "run disk_platform (py ''/s'') (py ''/d'') disk_cancel = Some out"
    by blast
  with cancel_trace have seen: "Stopped True \<in> set (trace (final out))"
    and last: "Done 1 \<in> set (events (trace (final out)))"
    and idxs: "progress_indices (events (trace (final out))) = [1]"
    by simp_all
  from cancellation_ends_the_run [of disk_platform "py ''/s''" "py ''/d''" disk_cancel] out seen
  obtain pre st where "out = Returned st"
    "trace st = pre @ [Stopped True, Put (LogLine cancelled_msg), Put (Done (count_moved pre))]"
    by blast
  then have "trace (final out) =
      pre @ [Stopped True, Put (LogLine cancelled_msg), Put (Done (count_moved pre))]"
    by simp
  with out seen last idxs finite_directories_disk show ?thesis
    by blast
qed

text \<open>
  Claim C2. At an iteration where the stop event is not set, an exception \<open>e\<close> raised in
  the body of the \<open>try\<close> is caught there: \<open>moved_count\<close> and the number of successful
  moves are as before, the \<open>LogLine\<close> with the file name and \<open>e\<close> and the \<open>Progress\<close>
  of this index are put, and the loop goes on with the next file. The body raises \<open>e\<close>
  when \<open>os.path.isfile\<close> raises it, when \<open>os.makedirs\<close> raises it for the destination
  folder, and when \<open>shutil.move\<close> raises it; classifying the file and looking for a
  unique name raise nothing. When directories are finite, the iteration ends.
\<close>

theorem per_file_failure_is_caught:
  fixes P :: "'w platform"
  assumes "\<not> stop_event_is_set P (world st)"
  shows
    "(\<forall>e st'. try_body P source dest idx filename (st\<lparr>trace := trace st @ [Stopped False]\<rparr>) = Some (Inl e, st') \<longrightarrow>
        moved_count st' = moved_count st \<and> count_moved (trace st') = count_moved (trace st) \<and>
        move_loop P source dest idx (filename # names) st =
          move_loop P source dest (idx + 1) names
            (st'\<lparr>trace := trace st' @ [Put (LogLine (error_msg filename e)), Put (Progress idx)]\<rparr>)) \<and>
     (\<forall>e st1. os_path_isfile P (path_join source filename) (world st1) = Inl e \<longrightarrow>
        try_body P source dest idx filename st1 = Some (Inl e, st1)) \<and>
     (\<forall>e st1 st2. os_path_isfile P (path_join source filename) (world st1) = Inr True \<and>
        makedirs P (path_join dest (category_or_other filename)) st1 = (Some e, st2) \<longrightarrow>
        try_body P source dest idx filename st1 = Some (Inl e, st2)) \<and>
     (\<forall>e st1 st2 st3 name. os_path_isfile P (path_join source filename) (world st1) = Inr True \<and>
        makedirs P (path_join dest (category_or_other filename)) st1 = (None, st2) \<and>
        get_unique_name (\<lambda>p. os_path_exists P p (world st2))
          (path_join dest (category_or_other filename)) filename = Some name \<and>
        move P (path_join source filename)
          (path_join (path_join dest (category_or_other filename)) name) st2 = (Some e, st3) \<longrightarrow>
        try_body P source dest idx filename st1 = Some (Inl e, st3)) \<and>
     (finite_directories P \<longrightarrow>
        (\<exists>st'. process_file P source dest idx filename (st\<lparr>trace := trace st @ [Stopped False]\<rparr>) = Some st'))"
proof (intro conjI allI impI)
  assume "finite_directories P"
  then show "\<exists>st'. process_file P source dest idx filename (st\<lparr>trace := trace st @ [Stopped False]\<rparr>) = Some st'"
    by (rule process_file_returns)
next
  fix e st'
  define st0 where "st0 = st\<lparr>trace := trace st @ [Stopped False]\<rparr>"
  assume "try_body P source dest idx filename (st\<lparr>trace := trace st @ [Stopped False]\<rparr>) = Some (Inl e, st')"
  then have body: "try_body P source dest idx filename st0 = Some (Inl e, st')"
    by (simp add: st0_def)
  from try_body_trace [OF body] obtain calls where calls:
    "moved_count st' = moved_count st0 + count_moved calls"
    "trace st' = trace st0 @ calls" "count_moved calls = 0"
    by auto
  show "moved_count st' = moved_count st"
    using calls by (simp add: st0_def)
  show "count_moved (trace st') = count_moved (trace st)"
    using calls by (simp add: st0_def count_moved_append)
  have "stopped P st = (False, st0)"
    using assms by (simp add: stopped_eq st0_def)
  then show "move_loop P source dest idx (filename # names) st =
      move_loop P source dest (idx + 1) names
        (st'\<lparr>trace := trace st' @ [Put (LogLine (error_msg filename e)), Put (Progress idx)]\<rparr>)"
    using body by (simp add: process_file_def put_def)
next
  fix e and st1 :: "'w wstate"
  assume "os_path_isfile P (path_join source filename) (world st1) = Inl e"
  then show "try_body P source dest idx filename st1 = Some (Inl e, st1)"
    by (simp add: try_body_def)
next
  fix e and st1 st2 :: "'w wstate"
  assume "os_path_isfile P (path_join source filename) (world st1) = Inr True \<and>
        makedirs P (path_join dest (category_or_other filename)) st1 = (Some e, st2)"
  then show "try_body P source dest idx filename st1 = Some (Inl e, st2)"
    by (simp add: try_body_def)
next
  fix e name and st1 st2 st3 :: "'w wstate"
  assume "os_path_isfile P (path_join source filename) (world st1) = Inr True \<and>
        makedirs P (path_join dest (category_or_other filename)) st1 = (None, st2) \<and>
        get_unique_name (\<lambda>p. os_path_exists P p (world st2))
          (path_join dest (category_or_other filename)) filename = Some name \<and>
        move P (path_join source filename)
          (path_join (path_join dest (category_or_other filename)) name) st2 = (Some e, st3)"
  then show "try_body P source dest idx filename st1 = Some (Inl e, st3)"
    by (simp add: try_body_def)
qed

text \<open>The theorem on \<open>disk_locked\<close>: the first file may not be moved, the second one
  is moved, and one move is counted.\<close>

theorem per_file_failure_is_caught_witness:
  "\<not> stop_event_is_set disk_platform (world \<lparr>world = disk_locked, trace = [], moved_count = 0\<rparr>) \<and>
   try_body disk_platform (py ''/s'') (py ''/d'') 1 (py ''a.txt'')
       \<lparr>world = disk_locked, trace = [Stopped False], moved_count = 0\<rparr> =
     Some (Inl (Exception (py ''Permission denied'')),
       \<lparr>world = disk_locked\<lparr>dir_paths := map py [''/d/Documents'', ''/s'', ''/d'']\<rparr>,
        trace = [Stopped False, Makedirs (py ''/d/Documents'') None,
          Move (py ''/s/a.txt'') (py ''/d/Documents/a.txt'') (Some (Exception (py ''Permission denied'')))],
        moved_count = 0\<rparr>) \<and>
   map_option (\<lambda>st. (events (trace st), moved_count st))
       (move_loop disk_platform (py ''/s'') (py ''/d'') 1 [py ''a.txt'', py ''b.txt'']
          \<lparr>world = disk_locked, trace = [], moved_count = 0\<rparr>) =
     Some ([LogLine (py ''[SYS] ERROR moving a.txt: Permission denied''), Progress 1,
            LogLine (py ''[SYS] [2024-01-01 12:00:00] Moved: b.txt '' @ [8594] @ py '' Documents/b.txt''),
            Progress 2], 1)"
proof -
  let ?st = "\<lparr>world = disk_locked, trace = [], moved_count = 0\<rparr>"
  let ?st' = "\<lparr>world = disk_locked\<lparr>dir_paths := map py [''/d/Documents'', ''/s'', ''/d'']\<rparr>,
        trace = [Stopped False, Makedirs (py ''/d/Documents'') None,
          Move (py ''/s/a.txt'') (py ''/d/Documents/a.txt'') (Some (Exception (py ''Permission denied'')))],
        moved_count = 0\<rparr>"
  have flag: "\<not> stop_event_is_set disk_platform (world ?st)"
    by (simp add: disk_platform_def disk_locked_def)
  have body: "try_body disk_platform (py ''/s'') (py ''/d'') 1 (py ''a.txt'')
      \<lparr>world = disk_locked, trace = [Stopped False], moved_count = 0\<rparr> =
      Some (Inl (Exception (py ''Permission denied'')), ?st')"
    by (simp add: eval_run disk_locked_def)
  then have "try_body disk_platform (py ''/s'') (py ''/d'') 1 (py ''a.txt'')
      (?st\<lparr>trace := trace ?st @ [Stopped False]\<rparr>) =
      Some (Inl (Exception (py ''Permission denied'')), ?st')"
    by simp
  with per_file_failure_is_caught [OF flag, of "py ''/s''" "py ''/d''" 1 "py ''a.txt''" "[py ''b.txt'']"]
  have loop: "move_loop disk_platform (py ''/s'') (py ''/d'') 1 [py ''a.txt'', py ''b.txt''] ?st =
      move_loop disk_platform (py ''/s'') (py ''/d'') (1 + 1) [py ''b.txt'']
        (?st'\<lparr>trace := trace ?st' @
           [Put (LogLine (error_msg (py ''a.txt'') (Exception (py ''Permission denied'')))), Put (Progress 1)]\<rparr>)"
    by blast
  have "map_option (\<lambda>st. (events (trace st), moved_count st))
      (move_loop disk_platform (py ''/s'') (py ''/d'') (1 + 1) [py ''b.txt'']
        (?st'\<lparr>trace := trace ?st' @
           [Put (LogLine (error_msg (py ''a.txt'') (Exception (py ''Permission denied'')))), Put (Progress 1)]\<rparr>)) =
     Some ([LogLine (py ''[SYS] ERROR moving a.txt: Permission denied''), Progress 1,
            LogLine (py ''[SYS] [2024-01-01 12:00:00] Moved: b.txt '' @ [8594] @ py '' Documents/b.txt''),
            Progress 2], 1)"
    by (simp add: eval_run disk_locked_def)
  with flag body loop show ?thesis
    by simp
qed

end
